theory Spec2Isabelle
  imports Complex_Main "HOL-Library.Word" "HOL-Library.Sublist"
begin

section \<open>JavaScript values used by the field mapper and the deck analyzer\<close>

subsection \<open>Strings\<close>

text \<open>
  A JavaScript string is a sequence of UTF-16 code units; \<open>length\<close>, \<open>includes\<close>,
  \<open>substring\<close> and \<open>===\<close> all work on code units. An ASCII literal of the source is
  written \<open>str ''front''\<close>; a literal beyond ASCII is written as its code units.
\<close>

type_synonym jschar = "16 word"
type_synonym jsstring = "jschar list"

definition str :: "string \<Rightarrow> jsstring" where
  "str s = map (\<lambda>c. of_nat (of_char c)) s"

text \<open>The double quote, and the two characters (backslash, n) that the template literals
  of the source write as \<^verbatim>\<open>\\n\<close>: an escaped backslash followed by the letter n.\<close>

definition dquote :: jsstring where
  "dquote = [0x22]"

definition bsn :: jsstring where
  "bsn = [0x5C, 0x6E]"

text \<open>\<open>s.includes(sub)\<close>: \<open>sub\<close> occurs in \<open>s\<close> as a contiguous run.\<close>

fun str_includes :: "jsstring \<Rightarrow> jsstring \<Rightarrow> bool" where
  "str_includes [] sub = (sub = [])"
| "str_includes (c # s) sub = (prefix sub (c # s) \<or> str_includes s sub)"

text \<open>\<open>s.trim()\<close> strips the WhiteSpace and LineTerminator code units of ECMAScript from
  both ends.\<close>

definition isLineTerminator :: "jschar \<Rightarrow> bool" where
  "isLineTerminator c = (c = 0x0A \<or> c = 0x0D \<or> c = 0x2028 \<or> c = 0x2029)"

definition isWhiteSpace :: "jschar \<Rightarrow> bool" where
  "isWhiteSpace c =
     (c = 0x09 \<or> c = 0x0B \<or> c = 0x0C \<or> c = 0x20 \<or> c = 0xA0 \<or> c = 0x1680
      \<or> (0x2000 \<le> c \<and> c \<le> 0x200A) \<or> c = 0x202F \<or> c = 0x205F \<or> c = 0x3000
      \<or> c = 0xFEFF \<or> isLineTerminator c)"

definition trim :: "jsstring \<Rightarrow> jsstring" where
  "trim s = rev (dropWhile isWhiteSpace (rev (dropWhile isWhiteSpace s)))"

text \<open>\<open>xs.join(sep)\<close> on an array of strings.\<close>

fun join :: "jsstring \<Rightarrow> jsstring list \<Rightarrow> jsstring" where
  "join sep [] = []"
| "join sep [x] = x"
| "join sep (x # y # ys) = x @ sep @ join sep (y # ys)"

text \<open>
  \<open>toLowerCase\<close> is a built-in driven by the Unicode case tables. The functions below take
  it as the parameter \<open>lc\<close>, so every theorem holds whatever the table is.
  \<open>toLowerCaseAscii\<close> is the built-in on strings of Basic Latin code units, for concrete
  evaluation.
\<close>

definition toLowerCaseAscii :: "jsstring \<Rightarrow> jsstring" where
  "toLowerCaseAscii s = map (\<lambda>c. if 0x41 \<le> c \<and> c \<le> 0x5A then c + 0x20 else c) s"

text \<open>Number to string, for integers (decimal digits, a minus sign when negative); the
  engine switches to exponent notation only from \<open>10^21\<close> on.\<close>

fun digitsOf :: "nat \<Rightarrow> jsstring" where
  "digitsOf n = (if n < 10 then [of_nat (48 + n)]
                 else digitsOf (n div 10) @ [of_nat (48 + n mod 10)])"

definition numberToString :: "int \<Rightarrow> jsstring" where
  "numberToString n = (if n < 0 then 0x2D # digitsOf (nat (- n)) else digitsOf (nat n))"

subsection \<open>Objects used as dictionaries\<close>

text \<open>
  A \<open>Record<string, V>\<close> is modelled by the list of its own properties in the order
  \<open>Object.entries\<close> and \<open>Object.keys\<close> enumerate them: keys that are array indices
  first, in ascending numeric order, then the other keys in the order they were created.
  \<open>rec_get\<close> and \<open>rec_set\<close> read and write own properties; \<open>obj_get\<close> and \<open>obj_set\<close> below
  are the reads and writes \<open>r[k]\<close> of the language, which reach \<open>Object.prototype\<close>.
\<close>

type_synonym 'v jsrecord = "(jsstring \<times> 'v) list"

definition isDigit :: "jschar \<Rightarrow> bool" where
  "isDigit c = (0x30 \<le> c \<and> c \<le> 0x39)"

definition indexValue :: "jsstring \<Rightarrow> nat" where
  "indexValue s = foldl (\<lambda>a c. 10 * a + (unat c - 48)) 0 s"

definition isArrayIndex :: "jsstring \<Rightarrow> bool" where
  "isArrayIndex s =
     (s \<noteq> [] \<and> list_all isDigit s \<and> (hd s \<noteq> 0x30 \<or> length s = 1)
      \<and> indexValue s < 4294967295)"

definition rec_get :: "'v jsrecord \<Rightarrow> jsstring \<Rightarrow> 'v option" where
  "rec_get r k = map_of r k"

fun insertKey :: "jsstring \<Rightarrow> 'v \<Rightarrow> 'v jsrecord \<Rightarrow> 'v jsrecord" where
  "insertKey k v [] = [(k, v)]"
| "insertKey k v ((k', v') # r) =
     (if isArrayIndex k \<and> (\<not> isArrayIndex k' \<or> indexValue k < indexValue k')
      then (k, v) # (k', v') # r
      else (k', v') # insertKey k v r)"

definition rec_set :: "'v jsrecord \<Rightarrow> jsstring \<Rightarrow> 'v \<Rightarrow> 'v jsrecord" where
  "rec_set r k v =
     (if k \<in> fst ` set r then map (\<lambda>(k', v'). if k' = k then (k', v) else (k', v')) r
      else insertKey k v r)"

text \<open>Truthiness of a looked-up string: \<open>undefined\<close> and the empty string are falsy.\<close>

fun truthy :: "jsstring option \<Rightarrow> bool" where
  "truthy None = False"
| "truthy (Some s) = (s \<noteq> [])"

subsection \<open>Reads and writes through the prototype\<close>

text \<open>
  Every object of the program is a plain one, whose prototype is \<open>Object.prototype\<close>. A
  read \<open>r[k]\<close> gives the own property \<open>k\<close> if there is one, else the member of
  \<open>Object.prototype\<close> named \<open>k\<close> if there is one, else \<open>undefined\<close>. The members are
  functions, but for \<open>__proto__\<close>, an accessor whose getter returns the prototype object:
  all of them are truthy, none is a string, a number or an array.
\<close>

definition protoMembers :: "jsstring list" where
  "protoMembers =
     [str ''constructor'', str ''__defineGetter__'', str ''__defineSetter__'',
      str ''hasOwnProperty'', str ''__lookupGetter__'', str ''__lookupSetter__'',
      str ''isPrototypeOf'', str ''propertyIsEnumerable'', str ''toString'', str ''valueOf'',
      str ''__proto__'', str ''toLocaleString'']"

datatype 'v jsget = Undefined | Own 'v | Inherited jsstring

definition obj_get :: "'v jsrecord \<Rightarrow> jsstring \<Rightarrow> 'v jsget" where
  "obj_get r k =
     (case map_of r k of
        Some v \<Rightarrow> Own v
      | None \<Rightarrow> if k \<in> set protoMembers then Inherited k else Undefined)"

text \<open>A write \<open>r[k] = v\<close> of a string or a number: it sets the own property \<open>k\<close>, except
  that for \<open>k = __proto__\<close> on an object without such an own property it runs the inherited
  setter, which ignores a value that is not an object.\<close>

definition obj_set :: "'v jsrecord \<Rightarrow> jsstring \<Rightarrow> 'v \<Rightarrow> 'v jsrecord" where
  "obj_set r k v =
     (if k = str ''__proto__'' \<and> k \<notin> fst ` set r then r else rec_set r k v)"

text \<open>The string of an inherited member, as Node.js renders it: the source text of a
  built-in function (the one named \<open>constructor\<close> is the function \<open>Object\<close>), and
  \<open>[object Object]\<close> for the prototype object.\<close>

definition memberToString :: "jsstring \<Rightarrow> jsstring" where
  "memberToString k =
     (if k = str ''__proto__'' then str ''[object Object]''
      else str ''function '' @ (if k = str ''constructor'' then str ''Object'' else k)
             @ str ''() { [native code] }'')"

text \<open>Truthiness and conversion to a string (also to a property key) of what a read of a
  string-valued object gives.\<close>

fun truthyGet :: "jsstring jsget \<Rightarrow> bool" where
  "truthyGet Undefined = False"
| "truthyGet (Own s) = (s \<noteq> [])"
| "truthyGet (Inherited k) = True"

fun toStr :: "jsstring jsget \<Rightarrow> jsstring" where
  "toStr Undefined = str ''undefined''"
| "toStr (Own s) = s"
| "toStr (Inherited k) = memberToString k"

section \<open>FieldMapper (services/field-mapper.ts)\<close>

record SemanticPattern =
  semantic :: jsstring
  keywords_p :: "jsstring list"

record AnkiNoteType =
  name :: jsstring
  fields_nt :: "jsstring list"

record BestMatch =
  field :: "jsstring option"
  confidence :: rat


definition patterns :: "SemanticPattern list" where
  "patterns =
    [\<lparr>semantic = str ''primary'', keywords_p = [str ''front'', str ''question'', str ''word'',
        str ''term'', str ''kanji'', [0x8868], [0x554F, 0x984C]]\<rparr>,
     \<lparr>semantic = str ''secondary'', keywords_p = [str ''back'', str ''answer'', str ''meaning'',
        str ''definition'', [0x88CF], [0x7B54, 0x3048]]\<rparr>,
     \<lparr>semantic = str ''reading'', keywords_p = [str ''reading'', str ''pronunciation'',
        str ''phonetic'', str ''kana'', [0x8AAD, 0x307F], [0x767A, 0x97F3]]\<rparr>,
     \<lparr>semantic = str ''example'', keywords_p = [str ''example'', str ''sentence'', str ''usage'',
        str ''context'', [0x4F8B, 0x6587], [0x4F7F, 0x7528, 0x4F8B]]\<rparr>,
     \<lparr>semantic = str ''notes'', keywords_p = [str ''notes'', str ''memo'', str ''hint'',
        str ''extra'', str ''remarks'', [0x30E1, 0x30E2], [0x30D2, 0x30F3, 0x30C8]]\<rparr>,
     \<lparr>semantic = str ''source'', keywords_p = [str ''source'', str ''reference'', str ''origin'',
        [0x51FA, 0x5178], [0x53C2, 0x8003]]\<rparr>,
     \<lparr>semantic = str ''image'', keywords_p = [str ''image'', str ''picture'', str ''photo'',
        str ''visual'', [0x753B, 0x50CF], [0x5199, 0x771F]]\<rparr>,
     \<lparr>semantic = str ''audio'', keywords_p = [str ''audio'', str ''sound'', str ''voice'',
        [0x97F3, 0x58F0]]\<rparr>,
     \<lparr>semantic = str ''category'', keywords_p = [str ''category'', str ''type'', str ''class'',
        str ''group'', [0x5206, 0x985E], [0x30AB, 0x30C6, 0x30B4, 0x30EA]]\<rparr>,
     \<lparr>semantic = str ''difficulty'', keywords_p = [str ''difficulty'', str ''level'',
        str ''grade'', [0x96E3, 0x6613, 0x5EA6], [0x30EC, 0x30D9, 0x30EB]]\<rparr>]"

subsection \<open>findBestFieldMatch\<close>

text \<open>The inner loop over the keywords of one field: \<open>fieldLower\<close> is the lowercased field,
  the last argument the running \<open>confidence\<close>. An exact match leaves the loop.\<close>

fun scanKeywords :: "(jsstring \<Rightarrow> jsstring) \<Rightarrow> jsstring \<Rightarrow> jsstring list \<Rightarrow> rat \<Rightarrow> rat" where
  "scanKeywords lc fieldLower [] conf = conf"
| "scanKeywords lc fieldLower (keyword # ks) conf =
     (let keywordLower = lc keyword in
      if fieldLower = keywordLower then 1
      else if str_includes fieldLower keywordLower \<and> length keywordLower > 2
        then scanKeywords lc fieldLower ks (max conf (8 / 10))
      else if str_includes keywordLower fieldLower \<and> length fieldLower \<ge> 4
              \<and> int (length keywordLower) - int (length fieldLower) \<le> 3
        then scanKeywords lc fieldLower ks (max conf (6 / 10))
      else scanKeywords lc fieldLower ks conf)"

definition fieldConfidence :: "(jsstring \<Rightarrow> jsstring) \<Rightarrow> jsstring \<Rightarrow> jsstring list \<Rightarrow> rat" where
  "fieldConfidence lc f kws = scanKeywords lc (lc f) kws 0"

text \<open>The outer loop over the fields, with the running \<open>bestField\<close> and \<open>bestConfidence\<close>.\<close>

fun scanFields ::
  "(jsstring \<Rightarrow> jsstring) \<Rightarrow> jsstring list \<Rightarrow> jsstring set \<Rightarrow> jsstring list
     \<Rightarrow> jsstring option \<Rightarrow> rat \<Rightarrow> BestMatch" where
  "scanFields lc kws usedFields [] bestField bestConfidence =
     \<lparr>field = bestField, confidence = bestConfidence\<rparr>"
| "scanFields lc kws usedFields (f # fs) bestField bestConfidence =
     (if f \<in> usedFields then scanFields lc kws usedFields fs bestField bestConfidence
      else if fieldConfidence lc f kws > bestConfidence
        then scanFields lc kws usedFields fs (Some f) (fieldConfidence lc f kws)
      else scanFields lc kws usedFields fs bestField bestConfidence)"

definition findBestFieldMatch ::
  "(jsstring \<Rightarrow> jsstring) \<Rightarrow> jsstring list \<Rightarrow> jsstring list \<Rightarrow> jsstring set \<Rightarrow> BestMatch" where
  "findBestFieldMatch lc flds kws usedFields = scanFields lc kws usedFields flds None 0"

subsection \<open>suggestMappings\<close>

text \<open>The state of the two passes is the pair of \<open>mappings\<close> and \<open>usedFields\<close>. The keys read
  and written in \<open>mappings\<close> are the labels of the pattern table, none of them the name of a
  member of \<open>Object.prototype\<close>, so these reads and writes are those of own properties.\<close>

fun firstPass ::
  "(jsstring \<Rightarrow> jsstring) \<Rightarrow> jsstring list \<Rightarrow> SemanticPattern list
     \<Rightarrow> jsstring jsrecord \<times> jsstring set \<Rightarrow> jsstring jsrecord \<times> jsstring set" where
  "firstPass lc flds [] st = st"
| "firstPass lc flds (p # ps) (mappings, usedFields) =
     (let bestMatch = findBestFieldMatch lc flds (keywords_p p) usedFields in
      if truthy (field bestMatch) \<and> confidence bestMatch > 8 / 10
      then firstPass lc flds ps
             (rec_set mappings (semantic p) (the (field bestMatch)),
              insert (the (field bestMatch)) usedFields)
      else firstPass lc flds ps (mappings, usedFields))"

fun secondPass ::
  "(jsstring \<Rightarrow> jsstring) \<Rightarrow> jsstring list \<Rightarrow> SemanticPattern list
     \<Rightarrow> jsstring jsrecord \<times> jsstring set \<Rightarrow> jsstring jsrecord \<times> jsstring set" where
  "secondPass lc flds [] st = st"
| "secondPass lc flds (p # ps) (mappings, usedFields) =
     (if truthy (rec_get mappings (semantic p)) then secondPass lc flds ps (mappings, usedFields)
      else
        (let bestMatch = findBestFieldMatch lc flds (keywords_p p) usedFields in
         if truthy (field bestMatch) \<and> confidence bestMatch > 5 / 10
         then secondPass lc flds ps
                (rec_set mappings (semantic p) (the (field bestMatch)),
                 insert (the (field bestMatch)) usedFields)
         else secondPass lc flds ps (mappings, usedFields)))"

definition fallbackAt ::
  "jsstring \<Rightarrow> nat \<Rightarrow> jsstring list
     \<Rightarrow> jsstring jsrecord \<times> jsstring set \<Rightarrow> jsstring jsrecord \<times> jsstring set" where
  "fallbackAt label i flds st =
     (case st of (mappings, usedFields) \<Rightarrow>
        if \<not> truthy (rec_get mappings label) \<and> length flds > i \<and> flds ! i \<notin> usedFields
        then (rec_set mappings label (flds ! i), insert (flds ! i) usedFields)
        else (mappings, usedFields))"

definition suggestMappings :: "(jsstring \<Rightarrow> jsstring) \<Rightarrow> AnkiNoteType \<Rightarrow> jsstring jsrecord" where
  "suggestMappings lc noteType =
     (let st1 = firstPass lc (fields_nt noteType) patterns ([], {});
          st2 = secondPass lc (fields_nt noteType) patterns st1;
          st3 = fallbackAt (str ''primary'') 0 (fields_nt noteType) st2;
          st4 = fallbackAt (str ''secondary'') 1 (fields_nt noteType) st3
      in fst st4)"

subsection \<open>getSuggestionDetails\<close>



subsection \<open>validateMapping\<close>

fun validateLoop :: "jsstring set \<Rightarrow> jsstring set \<Rightarrow> jsstring jsrecord \<Rightarrow> bool" where
  "validateLoop availableFields usedFields [] = True"
| "validateLoop availableFields usedFields ((label, f) # es) =
     (if f \<notin> availableFields then False
      else if f \<in> usedFields then False
      else validateLoop availableFields (insert f usedFields) es)"

definition validateMapping :: "AnkiNoteType \<Rightarrow> jsstring jsrecord \<Rightarrow> bool" where
  "validateMapping noteType mapping = validateLoop (set (fields_nt noteType)) {} mapping"

subsection \<open>applyMapping\<close>

fun applyLoop ::
  "jsstring jsrecord \<Rightarrow> jsstring jsrecord \<Rightarrow> jsstring jsrecord \<Rightarrow> jsstring jsrecord" where
  "applyLoop mapping [] result = result"
| "applyLoop mapping ((sem, content) # es) result =
     (let actualField = obj_get mapping sem in
      if truthyGet actualField \<and> content \<noteq> [] \<and> trim content \<noteq> []
      then (let key = toStr actualField; current = obj_get result key in
            if truthyGet current
            then applyLoop mapping es (obj_set result key (toStr current @ bsn @ content))
            else applyLoop mapping es (obj_set result key content))
      else applyLoop mapping es result)"

definition applyMapping :: "jsstring jsrecord \<Rightarrow> jsstring jsrecord \<Rightarrow> jsstring jsrecord" where
  "applyMapping mapping semanticContent = applyLoop mapping semanticContent []"

section \<open>DeckAnalyzer (services/deck-analyzer.ts)\<close>

text \<open>Of an \<open>AnkiCard\<close> the analyzer reads \<open>fields\<close> and \<open>modelName\<close> only; the other
  members of the interface are left out.\<close>

record FieldData =
  fieldValue :: jsstring
  fieldOrder :: int

record AnkiCard =
  cardId :: nat
  fields_card :: "FieldData jsrecord"
  modelName :: jsstring

record DeckAnalysisResult =
  deckName :: jsstring
  sampleSize :: int
  primaryNoteType :: jsstring
  fieldAnalysis :: "jsstring jsrecord"
  suggestedMappings :: "jsstring jsrecord"

text \<open>A thrown \<open>Error\<close> with its message, and the \<open>TypeError\<close> of the engine (a call of
  something that is not a function). The two calls to the card store either return or
  throw; \<open>analyzeDeck\<close> returns the calls it made, in order, next to its outcome.\<close>

datatype error = Error jsstring | TypeError

record AnkiConnectClient =
  findCards :: "jsstring \<Rightarrow> error + nat list"
  getCardsInfo :: "nat list \<Rightarrow> error + AnkiCard list"

datatype storeCall = FindCards jsstring | GetCardsInfo "nat list"

subsection \<open>analyzeFieldContent\<close>

text \<open>The test of the regular expression \<^verbatim>\<open>/\/.*\//\<close>: a slash, any run of code units
  other than line terminators, a slash.\<close>

fun dotStarSlash :: "jsstring \<Rightarrow> bool" where
  "dotStarSlash [] = False"
| "dotStarSlash (c # s) = (c = 0x2F \<or> (\<not> isLineTerminator c \<and> dotStarSlash s))"

fun testSlashPair :: "jsstring \<Rightarrow> bool" where
  "testSlashPair [] = False"
| "testSlashPair (c # s) = ((c = 0x2F \<and> dotStarSlash s) \<or> testSlashPair s)"

definition analyzeFieldContent ::
  "(jsstring \<Rightarrow> jsstring) \<Rightarrow> jsstring \<Rightarrow> jsstring list \<Rightarrow> jsstring" where
  "analyzeFieldContent lc fieldName samples =
     (let fieldLower = lc fieldName;
          contentSample = lc (join (str '' '') samples)
      in
      if str_includes fieldLower (str ''expression'')
         \<or> str_includes fieldLower (str ''pronunciation'')
        then str ''English expressions or pronunciation''
      else if str_includes fieldLower (str ''phonetic'')
         \<or> str_includes fieldLower (str ''pronunciation'')
        then str ''Pronunciation or phonetic information''
      else if str_includes fieldLower (str ''example'')
         \<or> str_includes fieldLower (str ''sentence'')
        then str ''Usage examples or sample sentences''
      else if str_includes fieldLower (str ''meaning'')
         \<or> str_includes fieldLower (str ''translation'')
        then str ''Meaning or translation''
      else if str_includes fieldLower (str ''explanation'')
         \<or> str_includes fieldLower (str ''description'')
        then str ''Detailed explanation or description''
      else if str_includes fieldLower (str ''grammar'')
        then str ''Grammar information''
      else if str_includes fieldLower (str ''synonym'')
         \<or> str_includes fieldLower (str ''related'')
        then str ''Synonyms or related words''
      else if str_includes fieldLower (str ''collocation'')
        then str ''Word collocations''
      else if testSlashPair contentSample
        then str ''Likely pronunciation symbols''
      else if str_includes contentSample (str ''example:'')
         \<or> str_includes contentSample (str ''usage:'')
        then str ''Examples or usage demonstrations''
      else if list_ex (\<lambda>s. length s > 100) samples
        then str ''Long detailed explanations''
      else if list_ex (\<lambda>s. length s < 20) samples
        then str ''Short words or phrases''
      else str ''General content (purpose unclear)'')"

subsection \<open>generateReport\<close>

text \<open>The connective between label and field in the mappings section, as the code units of
  the source file's template literal.\<close>

definition arrowToken :: jsstring where
  "arrowToken = [0xE2, 0x2020, 0x2019]"

definition generateReport :: "DeckAnalysisResult \<Rightarrow> jsstring" where
  "generateReport analysisResult =
     (let report = str ''=== Deck Analysis Report ==='' @ bsn @ bsn;
          report = report @ str ''Deck: '' @ deckName analysisResult @ bsn;
          report = report @ str ''Sample size: ''
                     @ numberToString (sampleSize analysisResult) @ bsn;
          report = report @ str ''Primary note type: ''
                     @ primaryNoteType analysisResult @ bsn @ bsn;
          report = report @ str ''Field Analysis:'' @ bsn;
          report = foldl (\<lambda>rep (fld, analysis).
                            rep @ str ''- '' @ fld @ str '': '' @ analysis @ bsn)
                         report (fieldAnalysis analysisResult);
          report = report @ bsn @ str ''Suggested Semantic Mappings:'' @ bsn
      in
      if length (map fst (suggestedMappings analysisResult)) = 0
      then report @ str ''No semantic mappings suggested'' @ bsn
      else foldl (\<lambda>rep (sem, fld).
                    rep @ str ''- '' @ sem @ str '' '' @ arrowToken @ str '' '' @ fld @ bsn)
                 report (suggestedMappings analysisResult))"

subsection \<open>getFieldSamples\<close>

definition truncateValue :: "jsstring \<Rightarrow> jsstring" where
  "truncateValue v = (if length v > 50 then take 50 v else v)"

text \<open>The inner loop over the entries of one card, then the loop over the cards;
  \<open>fieldSamples\<close> is the accumulated object. The empty list is stored only where the read
  gave \<open>undefined\<close>, so under a name that \<open>Object.prototype\<close> does not have. Where the read
  gives an inherited member, that member has no \<open>push\<close> and the call throws.\<close>

fun sampleEntries ::
  "FieldData jsrecord \<Rightarrow> (jsstring list) jsrecord \<Rightarrow> error + (jsstring list) jsrecord" where
  "sampleEntries [] fieldSamples = Inr fieldSamples"
| "sampleEntries ((fieldName, fieldData) # es) fieldSamples =
     (let fs1 = (if obj_get fieldSamples fieldName = Undefined
                 then rec_set fieldSamples fieldName [] else fieldSamples)
      in
      if fieldValue fieldData \<noteq> [] \<and> trim (fieldValue fieldData) \<noteq> []
      then (case obj_get fs1 fieldName of
              Own samples \<Rightarrow>
                sampleEntries es
                  (rec_set fs1 fieldName (samples @ [truncateValue (fieldValue fieldData)]))
            | Inherited member \<Rightarrow> Inl TypeError
            | Undefined \<Rightarrow> Inl TypeError)
      else sampleEntries es fs1)"

fun sampleCards ::
  "AnkiCard list \<Rightarrow> (jsstring list) jsrecord \<Rightarrow> error + (jsstring list) jsrecord" where
  "sampleCards [] fieldSamples = Inr fieldSamples"
| "sampleCards (crd # cs) fieldSamples =
     (case sampleEntries (fields_card crd) fieldSamples of
        Inl e \<Rightarrow> Inl e
      | Inr fieldSamples' \<Rightarrow> sampleCards cs fieldSamples')"

definition getFieldSamples :: "AnkiCard list \<Rightarrow> error + (jsstring list) jsrecord" where
  "getFieldSamples cards = sampleCards cards []"

subsection \<open>getPrimaryNoteType and analyzeFields\<close>

text \<open>A count is a number, or a string once \<open>+ 1\<close> has been applied to an inherited member
  or to such a string. \<open>bump\<close> is \<open>(x || 0) + 1\<close>.\<close>

datatype noteCount = Num nat | Text jsstring

fun bump :: "noteCount jsget \<Rightarrow> noteCount" where
  "bump Undefined = Num 1"
| "bump (Own (Num n)) = Num (n + 1)"
| "bump (Own (Text s)) = (if s = [] then Num 1 else Text (s @ str ''1''))"
| "bump (Inherited k) = Text (memberToString k @ str ''1'')"

fun countNoteTypes :: "AnkiCard list \<Rightarrow> noteCount jsrecord \<Rightarrow> noteCount jsrecord" where
  "countNoteTypes [] noteTypeCounts = noteTypeCounts"
| "countNoteTypes (crd # cs) noteTypeCounts =
     countNoteTypes cs
       (obj_set noteTypeCounts (modelName crd) (bump (obj_get noteTypeCounts (modelName crd))))"

text \<open>The strings that arise as counts start with the text of an inherited member: as
  numbers they are \<open>NaN\<close>, and \<open>count > maxCount\<close> is false for them.\<close>

fun pickPrimary :: "noteCount jsrecord \<Rightarrow> jsstring \<Rightarrow> nat \<Rightarrow> jsstring" where
  "pickPrimary [] primaryType maxCount = primaryType"
| "pickPrimary ((noteType, Num cnt) # es) primaryType maxCount =
     (if cnt > maxCount then pickPrimary es noteType cnt
      else pickPrimary es primaryType maxCount)"
| "pickPrimary ((noteType, Text s) # es) primaryType maxCount =
     pickPrimary es primaryType maxCount"

definition getPrimaryNoteType :: "AnkiCard list \<Rightarrow> jsstring" where
  "getPrimaryNoteType cards = pickPrimary (countNoteTypes cards []) [] 0"

definition analyzeFields ::
  "(jsstring \<Rightarrow> jsstring) \<Rightarrow> (jsstring list) jsrecord \<Rightarrow> jsstring jsrecord" where
  "analyzeFields lc fieldSamples =
     foldl (\<lambda>analysis (fieldName, samples).
              obj_set analysis fieldName (analyzeFieldContent lc fieldName samples))
           [] fieldSamples"

subsection \<open>analyzeDeck\<close>

text \<open>Sample sizes are integers. \<open>xs.slice(0, e)\<close> for an integer \<open>e\<close>: a negative end counts
  from the end of the array.\<close>

definition slice0 :: "'a list \<Rightarrow> int \<Rightarrow> 'a list" where
  "slice0 xs e =
     (let len = int (length xs);
          k = (if e < 0 then max (len + e) 0 else min e len)
      in take (nat k) xs)"

definition deckQuery :: "jsstring \<Rightarrow> jsstring" where
  "deckQuery dn = str ''deck:'' @ dquote @ dn @ dquote"

definition analyzeDeck ::
  "(jsstring \<Rightarrow> jsstring) \<Rightarrow> AnkiConnectClient \<Rightarrow> jsstring \<Rightarrow> int
     \<Rightarrow> storeCall list \<times> (error + DeckAnalysisResult)" where
  "analyzeDeck lc ankiClient dn requested =
     (case findCards ankiClient (deckQuery dn) of
        Inl e \<Rightarrow> ([FindCards (deckQuery dn)], Inl e)
      | Inr cardIds \<Rightarrow>
          if length cardIds = 0
          then ([FindCards (deckQuery dn)],
                Inl (Error (str ''Deck '' @ dquote @ dn @ dquote @ str '' contains no cards'')))
          else
            (let actualSampleSize = min requested (int (length cardIds));
                 sampleCardIds = slice0 cardIds actualSampleSize
             in case getCardsInfo ankiClient sampleCardIds of
                  Inl e \<Rightarrow> ([FindCards (deckQuery dn), GetCardsInfo sampleCardIds], Inl e)
                | Inr cardsInfo \<Rightarrow>
                    (let primaryType = getPrimaryNoteType cardsInfo in
                     case getFieldSamples cardsInfo of
                       Inl e \<Rightarrow> ([FindCards (deckQuery dn), GetCardsInfo sampleCardIds], Inl e)
                     | Inr fieldSamples \<Rightarrow>
                         (let analysis = analyzeFields lc fieldSamples;
                              mockNoteType = \<lparr>name = primaryType,
                                              fields_nt = map fst fieldSamples\<rparr>;
                              suggested = suggestMappings lc mockNoteType
                          in ([FindCards (deckQuery dn), GetCardsInfo sampleCardIds],
                              Inr \<lparr>deckName = dn, sampleSize = actualSampleSize,
                                   primaryNoteType = primaryType, fieldAnalysis = analysis,
                                   suggestedMappings = suggested\<rparr>)))))"

section \<open>Notions used to state the properties\<close>

text \<open>A blank text: empty or made of white space only.\<close>

definition blank :: "jsstring \<Rightarrow> bool" where
  "blank s = (\<forall>c \<in> set s. isWhiteSpace c)"

text \<open>The labels of the content map and the targets the mapping gives them are plain names:
  none is the name of a member of \<open>Object.prototype\<close>.\<close>

definition plainNames :: "jsstring jsrecord \<Rightarrow> jsstring jsrecord \<Rightarrow> bool" where
  "plainNames mapping content =
     (\<forall>e \<in> set content.
        fst e \<notin> set protoMembers
        \<and> (case rec_get mapping (fst e) of None \<Rightarrow> True | Some f \<Rightarrow> f \<notin> set protoMembers))"

text \<open>The texts that contribute to target field \<open>f\<close>: those of the pairs of the content map
  whose label is mapped to \<open>f\<close>, where \<open>f\<close> is a non-empty name and the text is not blank, in
  the iteration order of the content map.\<close>

definition textsFor :: "jsstring jsrecord \<Rightarrow> jsstring jsrecord \<Rightarrow> jsstring \<Rightarrow> jsstring list" where
  "textsFor mapping content f =
     map snd (filter (\<lambda>e. rec_get mapping (fst e) = Some f \<and> f \<noteq> [] \<and> \<not> blank (snd e)) content)"

text \<open>All values the sampled cards hold for a field name, in card order, and the names that
  some card declares.\<close>

definition declaredValues :: "AnkiCard list \<Rightarrow> jsstring \<Rightarrow> jsstring list" where
  "declaredValues cards fieldName =
     map (\<lambda>e. fieldValue (snd e))
         (filter (\<lambda>e. fst e = fieldName) (concat (map fields_card cards)))"

definition declaredNames :: "AnkiCard list \<Rightarrow> jsstring set" where
  "declaredNames cards = fst ` set (concat (map fields_card cards))"

subsection \<open>The FieldMatcher contract in the words of the specification\<close>

text \<open>The candidate confidence one keyword gives a field when they are not equal up to
  case: 0.8 if the lowercased field contains the lowercased keyword and that keyword is
  longer than 2; 0.6 if the lowercased keyword contains the lowercased field, the field is
  at least 4 long and the keyword at most 3 longer; lengths are those of the lowercased
  strings.\<close>

definition keywordScore :: "(jsstring \<Rightarrow> jsstring) \<Rightarrow> jsstring \<Rightarrow> jsstring \<Rightarrow> rat" where
  "keywordScore lc f k =
     max (if str_includes (lc f) (lc k) \<and> length (lc k) > 2 then 8 / 10 else 0)
         (if str_includes (lc k) (lc f) \<and> length (lc f) \<ge> 4
             \<and> length (lc k) \<le> length (lc f) + 3 then 6 / 10 else 0)"

definition fieldConfidence_spec ::
  "(jsstring \<Rightarrow> jsstring) \<Rightarrow> jsstring \<Rightarrow> jsstring list \<Rightarrow> rat" where
  "fieldConfidence_spec lc f kws =
     (if \<exists>k \<in> set kws. lc f = lc k then 1
      else Max (insert 0 (keywordScore lc f ` set kws)))"

text \<open>Across the unused fields in declared order: no field and confidence 0 when every
  field is used or every confidence is 0; otherwise the first field whose confidence is
  the highest one.\<close>

definition bestMatch_spec ::
  "(jsstring \<Rightarrow> jsstring) \<Rightarrow> jsstring list \<Rightarrow> jsstring list \<Rightarrow> jsstring set \<Rightarrow> BestMatch" where
  "bestMatch_spec lc flds kws used =
     (let candidates = filter (\<lambda>f. f \<notin> used) flds;
          conf = (\<lambda>f. fieldConfidence_spec lc f kws)
      in if candidates = [] \<or> (\<forall>f \<in> set candidates. conf f = 0)
         then \<lparr>field = None, confidence = 0\<rparr>
         else \<lparr>field = find (\<lambda>f. conf f = Max (conf ` set candidates)) candidates,
               confidence = Max (conf ` set candidates)\<rparr>)"

subsection \<open>The fallback rule of getSuggestionDetails\<close>


subsection \<open>The invariant of the passes of suggestMappings\<close>

text \<open>No label is listed twice, no field is assigned twice, and every assigned field is
  marked used and is a field of the schema.\<close>

definition wellAssigned :: "jsstring list \<Rightarrow> jsstring jsrecord \<times> jsstring set \<Rightarrow> bool" where
  "wellAssigned flds st =
     (distinct (map fst (fst st)) \<and> distinct (map snd (fst st))
      \<and> snd ` set (fst st) \<subseteq> snd st \<and> snd ` set (fst st) \<subseteq> set flds)"

section \<open>Basic facts about objects and strings\<close>

lemma map_of_update_other:
  "k' \<noteq> k \<Longrightarrow> map_of (map (\<lambda>(a, b). if a = k then (a, v) else (a, b)) r) k' = map_of r k'"
proof (induction r)
  case Nil
  show ?case by simp
next
  case (Cons e r)
  obtain a b where e: "e = (a, b)" by (cases e)
  show ?case using Cons by (simp add: e)
qed

lemma map_of_update_same:
  "k \<in> fst ` set r \<Longrightarrow> map_of (map (\<lambda>(a, b). if a = k then (a, v) else (a, b)) r) k = Some v"
proof (induction r)
  case Nil
  then show ?case by simp
next
  case (Cons e r)
  obtain a b where e: "e = (a, b)" by (cases e)
  show ?case using Cons by (cases "a = k") (simp_all add: e)
qed

lemma map_of_insertKey:
  "k \<notin> fst ` set r \<Longrightarrow> map_of (insertKey k v r) k' = (if k' = k then Some v else map_of r k')"
  by (induction r) auto

lemma rec_get_rec_set:
  "rec_get (rec_set r k v) k' = (if k' = k then Some v else rec_get r k')"
  by (simp add: rec_get_def rec_set_def map_of_update_other map_of_update_same map_of_insertKey)

lemma rec_get_None_iff: "rec_get r k = None \<longleftrightarrow> k \<notin> fst ` set r"
  by (simp add: rec_get_def map_of_eq_None_iff)

lemma rec_get_SomeD: "rec_get r k = Some v \<Longrightarrow> (k, v) \<in> set r"
  by (simp add: rec_get_def map_of_SomeD)

lemma set_insertKey: "set (insertKey k v r) = insert (k, v) (set r)"
  by (induction r) (auto split: if_splits)

lemma rec_get_Nil: "rec_get [] k = None"
  by (simp add: rec_get_def)

lemma filter_key_absent: "fn \<notin> fst ` set es \<Longrightarrow> filter (\<lambda>e. fst e = fn) es = []"
  by (induction es) auto

lemma snd_set_rec_set: "snd ` set (rec_set r k v) \<subseteq> insert v (snd ` set r)"
  by (auto simp: rec_set_def set_insertKey split: if_splits)

lemma dropWhile_all_iff: "(\<forall>x \<in> set (dropWhile P xs). P x) \<longleftrightarrow> (\<forall>x \<in> set xs. P x)"
  by (induction xs) auto

lemma trim_eq_Nil_iff: "trim s = [] \<longleftrightarrow> blank s"
  by (simp add: trim_def blank_def dropWhile_eq_Nil_conv dropWhile_all_iff)

lemma not_blank_iff: "(v \<noteq> [] \<and> trim v \<noteq> []) \<longleftrightarrow> \<not> blank v"
  by (auto simp: trim_eq_Nil_iff blank_def)

subsection \<open>Reads and writes through the prototype\<close>

lemma obj_get_rec_get:
  "obj_get r k =
     (case rec_get r k of
        Some v \<Rightarrow> Own v
      | None \<Rightarrow> if k \<in> set protoMembers then Inherited k else Undefined)"
  by (simp add: obj_get_def rec_get_def)

lemma proto_is_member: "str ''__proto__'' \<in> set protoMembers"
  by (simp add: protoMembers_def)

lemma obj_set_plain: "k \<notin> set protoMembers \<Longrightarrow> obj_set r k v = rec_set r k v"
  using proto_is_member by (auto simp: obj_set_def)

lemma snd_set_obj_set: "snd ` set (obj_set r k v) \<subseteq> insert v (snd ` set r)"
proof (cases "k = str ''__proto__'' \<and> k \<notin> fst ` set r")
  case True
  then have "obj_set r k v = r" by (auto simp: obj_set_def)
  then show ?thesis by (simp add: subset_insertI)
next
  case False
  then have "obj_set r k v = rec_set r k v" by (auto simp: obj_set_def)
  then show ?thesis by (simp add: snd_set_rec_set)
qed

lemma pattern_labels_plain:
  "\<forall>p \<in> set patterns. semantic p \<notin> set protoMembers"
  by (simp add: patterns_def protoMembers_def str_def)

section \<open>validateMapping\<close>

lemma validateLoop_iff:
  "validateLoop A U m
     \<longleftrightarrow> set (map snd m) \<subseteq> A \<and> set (map snd m) \<inter> U = {} \<and> distinct (map snd m)"
proof (induction m arbitrary: U)
  case Nil
  show ?case by simp
next
  case (Cons e m)
  obtain l f where e: "e = (l, f)" by (cases e)
  show ?case using Cons.IH [of "insert f U"] by (auto simp: e)
qed

lemma distinct_iff_no_pair:
  "distinct xs \<longleftrightarrow> \<not> (\<exists>i j. i < j \<and> j < length xs \<and> xs ! i = xs ! j)"
proof
  assume "distinct xs"
  then show "\<not> (\<exists>i j. i < j \<and> j < length xs \<and> xs ! i = xs ! j)"
    by (auto simp: distinct_conv_nth)
next
  assume h: "\<not> (\<exists>i j. i < j \<and> j < length xs \<and> xs ! i = xs ! j)"
  show "distinct xs"
    unfolding distinct_conv_nth
  proof (intro allI impI)
    fix i j assume "i < length xs" "j < length xs" "i \<noteq> j"
    then consider "i < j" | "j < i" by linarith
    then show "xs ! i \<noteq> xs ! j"
    proof cases
      case 1 with h \<open>j < length xs\<close> show ?thesis by blast
    next
      case 2 with h \<open>i < length xs\<close> show ?thesis by metis
    qed
  qed
qed

lemma validateMapping_iff:
  "validateMapping noteType mapping
     \<longleftrightarrow> set (map snd mapping) \<subseteq> set (fields_nt noteType) \<and> distinct (map snd mapping)"
  by (simp add: validateMapping_def validateLoop_iff)

text \<open>
  Claim C6. For every schema and mapping, \<open>validateMapping\<close> returns false if and only if
  some entry of the mapping targets a field that is not among the schema's fields, or two
  entries (at positions \<open>i < j\<close> of the mapping) target the same field; on the empty mapping
  it returns true for any schema.
\<close>

theorem validateMapping_false_iff:
  "(validateMapping noteType mapping = False
      \<longleftrightarrow> (\<exists>e \<in> set mapping. snd e \<notin> set (fields_nt noteType))
          \<or> (\<exists>i j. i < j \<and> j < length mapping \<and> snd (mapping ! i) = snd (mapping ! j)))
   \<and> validateMapping noteType [] = True"
proof -
  have "distinct (map snd mapping)
         \<longleftrightarrow> \<not> (\<exists>i j. i < j \<and> j < length mapping \<and> snd (mapping ! i) = snd (mapping ! j))"
    unfolding distinct_iff_no_pair [of "map snd mapping"] by auto
  then show ?thesis
    unfolding validateMapping_iff by auto
qed

theorem validateMapping_false_iff_witness:
  "validateMapping \<lparr>name = str ''Basic'', fields_nt = [str ''Front'', str ''Back'']\<rparr>
     [(str ''primary'', str ''Front''), (str ''secondary'', str ''Front'')] = False
   \<and> validateMapping \<lparr>name = str ''Basic'', fields_nt = [str ''Front'', str ''Back'']\<rparr>
     [(str ''primary'', str ''Front''), (str ''secondary'', str ''NonExistent'')] = False
   \<and> validateMapping \<lparr>name = str ''Basic'', fields_nt = [str ''Front'', str ''Back'']\<rparr> [] = True"
proof -
  let ?nt = "\<lparr>name = str ''Basic'', fields_nt = [str ''Front'', str ''Back'']\<rparr>"
  let ?m1 = "[(str ''primary'', str ''Front''), (str ''secondary'', str ''Front'')]"
  let ?m2 = "[(str ''primary'', str ''Front''), (str ''secondary'', str ''NonExistent'')]"
  have 1: "\<exists>i j. i < j \<and> j < length ?m1 \<and> snd (?m1 ! i) = snd (?m1 ! j)"
    by (rule exI [of _ 0], rule exI [of _ 1]) simp
  have 2: "\<exists>e \<in> set ?m2. snd e \<notin> set (fields_nt ?nt)"
    by (simp add: str_def)
  show ?thesis
    using validateMapping_false_iff [of ?nt ?m1] validateMapping_false_iff [of ?nt ?m2] 1 2
    by blast
qed

section \<open>analyzeFieldContent\<close>

lemma phonetic_label_neq:
  "str ''English expressions or pronunciation'' \<noteq> str ''Pronunciation or phonetic information''"
  "str ''Usage examples or sample sentences'' \<noteq> str ''Pronunciation or phonetic information''"
  "str ''Meaning or translation'' \<noteq> str ''Pronunciation or phonetic information''"
  "str ''Detailed explanation or description'' \<noteq> str ''Pronunciation or phonetic information''"
  "str ''Grammar information'' \<noteq> str ''Pronunciation or phonetic information''"
  "str ''Synonyms or related words'' \<noteq> str ''Pronunciation or phonetic information''"
  "str ''Word collocations'' \<noteq> str ''Pronunciation or phonetic information''"
  "str ''Likely pronunciation symbols'' \<noteq> str ''Pronunciation or phonetic information''"
  "str ''Examples or usage demonstrations'' \<noteq> str ''Pronunciation or phonetic information''"
  "str ''Long detailed explanations'' \<noteq> str ''Pronunciation or phonetic information''"
  "str ''Short words or phrases'' \<noteq> str ''Pronunciation or phonetic information''"
  "str ''General content (purpose unclear)'' \<noteq> str ''Pronunciation or phonetic information''"
  by (simp_all add: str_def)

text \<open>
  Claim C9. For every field name and sample list: if the lowercased field name contains
  "pronunciation", \<open>analyzeFieldContent\<close> returns the rule-1 label "English expressions or
  pronunciation", whatever the samples; and the rule-2 label "Pronunciation or phonetic
  information" is returned only for names whose lowercased form contains "phonetic" and
  contains neither "expression" nor "pronunciation".
\<close>

theorem analyzeFieldContent_pronunciation:
  "(str_includes (lc fieldName) (str ''pronunciation'')
      \<longrightarrow> analyzeFieldContent lc fieldName samples = str ''English expressions or pronunciation'')
   \<and> (analyzeFieldContent lc fieldName samples = str ''Pronunciation or phonetic information''
      \<longrightarrow> str_includes (lc fieldName) (str ''phonetic'')
          \<and> \<not> str_includes (lc fieldName) (str ''expression'')
          \<and> \<not> str_includes (lc fieldName) (str ''pronunciation''))"
  by (simp add: analyzeFieldContent_def Let_def phonetic_label_neq)

theorem analyzeFieldContent_pronunciation_witness:
  "analyzeFieldContent toLowerCaseAscii (str ''Pronunciation'') [str ''/abc/'']
     = str ''English expressions or pronunciation''
   \<and> analyzeFieldContent toLowerCaseAscii (str ''Phonetic'') []
     = str ''Pronunciation or phonetic information''
   \<and> \<not> str_includes (toLowerCaseAscii (str ''Phonetic'')) (str ''pronunciation'')"
proof -
  have 1: "str_includes (toLowerCaseAscii (str ''Pronunciation'')) (str ''pronunciation'')"
    by (simp add: str_def toLowerCaseAscii_def)
  have 2: "analyzeFieldContent toLowerCaseAscii (str ''Phonetic'') []
             = str ''Pronunciation or phonetic information''"
    by (simp add: analyzeFieldContent_def str_def toLowerCaseAscii_def)
  show ?thesis
    using analyzeFieldContent_pronunciation
            [of toLowerCaseAscii "str ''Pronunciation''" "[str ''/abc/'']"]
          analyzeFieldContent_pronunciation [of toLowerCaseAscii "str ''Phonetic''" "[]"] 1 2
    by blast
qed

section \<open>analyzeDeck\<close>

text \<open>
  Claim C3. For every collection name and requested sample size: if the id lookup
  \<open>findCards\<close> returns no ids, \<open>analyzeDeck\<close> fails with the error whose message says that
  the deck contains no cards, the only call made to the card store is that lookup, and
  \<open>getCardsInfo\<close> is not called.
\<close>

theorem analyzeDeck_empty_collection:
  assumes "findCards ankiClient (deckQuery dn) = Inr []"
  shows "analyzeDeck lc ankiClient dn requested =
           ([FindCards (deckQuery dn)],
            Inl (Error (str ''Deck '' @ dquote @ dn @ dquote @ str '' contains no cards'')))
         \<and> (\<forall>ids. GetCardsInfo ids \<notin> set (fst (analyzeDeck lc ankiClient dn requested)))"
  using assms by (simp add: analyzeDeck_def)

theorem analyzeDeck_empty_collection_witness:
  "findCards \<lparr>findCards = (\<lambda>q. Inr []), getCardsInfo = (\<lambda>ids. Inr [])\<rparr>
     (deckQuery (str ''EmptyDeck'')) = Inr []
   \<and> analyzeDeck toLowerCaseAscii \<lparr>findCards = (\<lambda>q. Inr []), getCardsInfo = (\<lambda>ids. Inr [])\<rparr>
       (str ''EmptyDeck'') 5 =
       ([FindCards (deckQuery (str ''EmptyDeck''))],
        Inl (Error (str ''Deck '' @ dquote @ str ''EmptyDeck'' @ dquote
                      @ str '' contains no cards'')))"
proof -
  let ?c = "\<lparr>findCards = (\<lambda>q. Inr []), getCardsInfo = (\<lambda>ids. Inr [])\<rparr>"
  have h: "findCards ?c (deckQuery (str ''EmptyDeck'')) = Inr []" by simp
  show ?thesis
    using analyzeDeck_empty_collection [OF h, of toLowerCaseAscii 5] h by blast
qed

section \<open>getFieldSamples\<close>

lemma sampleEntries_plain_step:
  assumes "n \<notin> set protoMembers"
  shows "sampleEntries ((n, d) # es) fs =
           sampleEntries es
             (if \<not> blank (fieldValue d)
              then rec_set (if rec_get fs n = None then rec_set fs n [] else fs) n
                     ((case rec_get fs n of None \<Rightarrow> [] | Some xs \<Rightarrow> xs)
                        @ [truncateValue (fieldValue d)])
              else (if rec_get fs n = None then rec_set fs n [] else fs))"
proof (cases "rec_get fs n")
  case None
  then have u: "obj_get fs n = Undefined" using assms by (simp add: obj_get_rec_get)
  have o: "obj_get (rec_set fs n []) n = Own []"
    by (simp add: obj_get_rec_get rec_get_rec_set)
  show ?thesis
    using not_blank_iff [of "fieldValue d"] by (auto simp: Let_def u o None)
next
  case (Some xs)
  then have o: "obj_get fs n = Own xs" by (simp add: obj_get_rec_get)
  show ?thesis
    using not_blank_iff [of "fieldValue d"] by (auto simp: Let_def o Some)
qed

lemma sampleEntries_plain:
  assumes "fst ` set es \<inter> set protoMembers = {}"
  shows "\<exists>fs'. sampleEntries es fs = Inr fs'
           \<and> (\<forall>fn. rec_get fs' fn =
                (case rec_get fs fn of
                   Some xs \<Rightarrow> Some (xs @ map truncateValue (filter (\<lambda>v. \<not> blank v)
                                 (map (\<lambda>e. fieldValue (snd e)) (filter (\<lambda>e. fst e = fn) es))))
                 | None \<Rightarrow> if fn \<in> fst ` set es
                           then Some (map truncateValue (filter (\<lambda>v. \<not> blank v)
                                 (map (\<lambda>e. fieldValue (snd e)) (filter (\<lambda>e. fst e = fn) es))))
                           else None))"
  using assms
proof (induction es arbitrary: fs)
  case Nil
  show ?case by (simp split: option.splits)
next
  case (Cons e es)
  obtain n d where e: "e = (n, d)" by (cases e)
  have plain: "n \<notin> set protoMembers" and rest: "fst ` set es \<inter> set protoMembers = {}"
    using Cons.prems by (auto simp: e)
  define old where "old = (case rec_get fs n of None \<Rightarrow> [] | Some xs \<Rightarrow> xs)"
  define fs1 where "fs1 = (if rec_get fs n = None then rec_set fs n [] else fs)"
  define fs2 where "fs2 = (if \<not> blank (fieldValue d)
                           then rec_set fs1 n (old @ [truncateValue (fieldValue d)])
                           else fs1)"
  have g1: "rec_get fs1 k = (if k = n then Some old else rec_get fs k)" for k
    by (cases "rec_get fs n") (auto simp: fs1_def old_def rec_get_rec_set)
  have g2: "rec_get fs2 k =
              (if k = n then Some (old @ (if \<not> blank (fieldValue d)
                                          then [truncateValue (fieldValue d)] else []))
               else rec_get fs k)" for k
    by (simp add: fs2_def g1 rec_get_rec_set)
  have step: "sampleEntries (e # es) fs = sampleEntries es fs2"
    unfolding e sampleEntries_plain_step [OF plain] fs2_def fs1_def old_def ..
  from Cons.IH [OF rest, of fs2] obtain fs' where
    r: "sampleEntries es fs2 = Inr fs'" and
    g: "\<And>fn. rec_get fs' fn =
          (case rec_get fs2 fn of
             Some xs \<Rightarrow> Some (xs @ map truncateValue (filter (\<lambda>v. \<not> blank v)
                           (map (\<lambda>e. fieldValue (snd e)) (filter (\<lambda>e. fst e = fn) es))))
           | None \<Rightarrow> if fn \<in> fst ` set es
                     then Some (map truncateValue (filter (\<lambda>v. \<not> blank v)
                           (map (\<lambda>e. fieldValue (snd e)) (filter (\<lambda>e. fst e = fn) es))))
                     else None)"
    by blast
  have "rec_get fs' fn =
          (case rec_get fs fn of
             Some xs \<Rightarrow> Some (xs @ map truncateValue (filter (\<lambda>v. \<not> blank v)
                           (map (\<lambda>e. fieldValue (snd e)) (filter (\<lambda>e. fst e = fn) (e # es)))))
           | None \<Rightarrow> if fn \<in> fst ` set (e # es)
                     then Some (map truncateValue (filter (\<lambda>v. \<not> blank v)
                           (map (\<lambda>e. fieldValue (snd e)) (filter (\<lambda>e. fst e = fn) (e # es)))))
                     else None)" for fn
  proof (cases "fn = n")
    case True
    then show ?thesis
      unfolding g g2 by (cases "rec_get fs n") (simp_all add: e old_def)
  next
    case False
    then show ?thesis
      unfolding g g2 by (cases "rec_get fs fn") (simp_all add: e)
  qed
  with r step show ?case by simp
qed

lemma sampleCards_plain:
  assumes "declaredNames cs \<inter> set protoMembers = {}"
  shows "\<exists>fs'. sampleCards cs fs = Inr fs'
           \<and> (\<forall>fn. rec_get fs' fn =
                (case rec_get fs fn of
                   Some xs \<Rightarrow> Some (xs @ map truncateValue
                                 (filter (\<lambda>v. \<not> blank v) (declaredValues cs fn)))
                 | None \<Rightarrow> if fn \<in> declaredNames cs
                           then Some (map truncateValue
                                  (filter (\<lambda>v. \<not> blank v) (declaredValues cs fn)))
                           else None))"
  using assms
proof (induction cs arbitrary: fs)
  case Nil
  show ?case by (simp add: declaredValues_def declaredNames_def split: option.splits)
next
  case (Cons c cs)
  have p1: "fst ` set (fields_card c) \<inter> set protoMembers = {}"
    and p2: "declaredNames cs \<inter> set protoMembers = {}"
    using Cons.prems by (auto simp: declaredNames_def)
  from sampleEntries_plain [OF p1, of fs] obtain fs1 where
    r1: "sampleEntries (fields_card c) fs = Inr fs1" and
    g1: "\<And>fn. rec_get fs1 fn =
          (case rec_get fs fn of
             Some xs \<Rightarrow> Some (xs @ map truncateValue (filter (\<lambda>v. \<not> blank v)
                (map (\<lambda>e. fieldValue (snd e)) (filter (\<lambda>e. fst e = fn) (fields_card c)))))
           | None \<Rightarrow> if fn \<in> fst ` set (fields_card c)
                     then Some (map truncateValue (filter (\<lambda>v. \<not> blank v)
                (map (\<lambda>e. fieldValue (snd e)) (filter (\<lambda>e. fst e = fn) (fields_card c)))))
                     else None)"
    by blast
  from Cons.IH [OF p2, of fs1] obtain fs' where
    r2: "sampleCards cs fs1 = Inr fs'" and
    g2: "\<And>fn. rec_get fs' fn =
          (case rec_get fs1 fn of
             Some xs \<Rightarrow> Some (xs @ map truncateValue
                           (filter (\<lambda>v. \<not> blank v) (declaredValues cs fn)))
           | None \<Rightarrow> if fn \<in> declaredNames cs
                     then Some (map truncateValue
                            (filter (\<lambda>v. \<not> blank v) (declaredValues cs fn)))
                     else None)"
    by blast
  have dv: "declaredValues (c # cs) fn =
              map (\<lambda>e. fieldValue (snd e)) (filter (\<lambda>e. fst e = fn) (fields_card c))
              @ declaredValues cs fn" for fn
    by (simp add: declaredValues_def)
  have dn: "fn \<in> declaredNames (c # cs)
              \<longleftrightarrow> fn \<in> fst ` set (fields_card c) \<or> fn \<in> declaredNames cs" for fn
    by (auto simp: declaredNames_def)
  have "rec_get fs' fn =
          (case rec_get fs fn of
             Some xs \<Rightarrow> Some (xs @ map truncateValue
                           (filter (\<lambda>v. \<not> blank v) (declaredValues (c # cs) fn)))
           | None \<Rightarrow> if fn \<in> declaredNames (c # cs)
                     then Some (map truncateValue
                            (filter (\<lambda>v. \<not> blank v) (declaredValues (c # cs) fn)))
                     else None)" for fn
  proof (cases "rec_get fs fn")
    case (Some xs)
    then show ?thesis unfolding g2 g1 dv by simp
  next
    case None
    show ?thesis
    proof (cases "fn \<in> fst ` set (fields_card c)")
      case True
      with None show ?thesis unfolding g2 g1 dv dn by simp
    next
      case False
      with None show ?thesis unfolding g2 g1 dv dn by (simp add: filter_key_absent)
    qed
  qed
  with r1 r2 show ?case by simp
qed

text \<open>On records whose field names are plain (none is the name of a member of
  \<open>Object.prototype\<close>), \<open>getFieldSamples\<close> returns, and the sample list of a name is made of
  the non-blank values the records hold for it, in record order, each cut to its first 50
  code units; a declared name with only blank values has the empty list.\<close>

lemma getFieldSamples_plain_names:
  assumes "declaredNames cards \<inter> set protoMembers = {}"
  shows "\<exists>fs. getFieldSamples cards = Inr fs
           \<and> (\<forall>fn. rec_get fs fn =
                (if fn \<in> declaredNames cards
                 then Some (map truncateValue
                        (filter (\<lambda>v. \<not> blank v) (declaredValues cards fn)))
                 else None))"
  using sampleCards_plain [OF assms, of "[]"]
  by (simp add: getFieldSamples_def rec_get_Nil)

lemma truncateValue_length:
  "truncateValue v = (if length v > 50 then take 50 v else v)"
  "length v > 50 \<Longrightarrow> length (truncateValue v) = 50"
  by (simp_all add: truncateValue_def)

text \<open>
  Claim C8. For every list of sampled records the sample list of a field name should hold
  the non-blank values of the records, each cut to its first 50 code units, and a name
  whose values are all blank should be present with the empty list. The code does so for
  plain names (\<open>getFieldSamples_plain_names\<close>) and misses the names that \<open>Object.prototype\<close>
  has. On a record declaring a field named \<open>constructor\<close>, the test
  \<^verbatim>\<open>!fieldSamples[fieldName]\<close> finds the inherited member, so no list is created:
  with a non-blank value the call of \<open>push\<close> throws a \<open>TypeError\<close>, and with a blank
  value the field is left out of the sample set.
\<close>

theorem getFieldSamples_inherited_name:
  "getFieldSamples
     [\<lparr>cardId = 1,
       fields_card = [(str ''constructor'', \<lparr>fieldValue = str ''x'', fieldOrder = 0\<rparr>)],
       modelName = str ''Basic''\<rparr>] = Inl TypeError
   \<and> getFieldSamples
     [\<lparr>cardId = 1,
       fields_card = [(str ''constructor'', \<lparr>fieldValue = [], fieldOrder = 0\<rparr>)],
       modelName = str ''Basic''\<rparr>] = Inr []"
  by (simp add: getFieldSamples_def obj_get_def protoMembers_def trim_def isWhiteSpace_def
        isLineTerminator_def str_def)


section \<open>applyMapping\<close>

lemma bsn_not_Nil: "bsn \<noteq> []"
  by (simp add: bsn_def)

lemma textsFor_Nil: "textsFor m [] f = []"
  by (simp add: textsFor_def)

lemma textsFor_Cons:
  "textsFor m ((l, t) # es) f =
     (if rec_get m l = Some f \<and> f \<noteq> [] \<and> \<not> blank t then t # textsFor m es f
      else textsFor m es f)"
  by (simp add: textsFor_def)

lemma truthy_iff: "truthy x \<longleftrightarrow> (\<exists>s. x = Some s \<and> s \<noteq> [])"
  by (cases x) auto

lemma blank_Nil: "blank []"
  by (simp add: blank_def)

lemma applyLoop_skip_blank:
  "blank t \<Longrightarrow> applyLoop m ((l, t) # es) result = applyLoop m es result"
  using not_blank_iff [of t] by (auto simp: Let_def)

lemma applyLoop_skip_unmapped:
  assumes "l \<notin> set protoMembers" "\<not> truthy (rec_get m l)"
  shows "applyLoop m ((l, t) # es) result = applyLoop m es result"
proof (cases "rec_get m l")
  case None
  then have "obj_get m l = Undefined" using assms(1) by (simp add: obj_get_rec_get)
  then show ?thesis by (simp add: Let_def)
next
  case (Some s)
  then have "s = []" using assms(2) by simp
  then have "obj_get m l = Own []" using Some by (simp add: obj_get_rec_get)
  then show ?thesis by (simp add: Let_def)
qed

lemma applyLoop_take:
  assumes "rec_get m l = Some af" "af \<noteq> []" "af \<notin> set protoMembers" "\<not> blank t"
    and "[] \<notin> snd ` set result"
  shows "applyLoop m ((l, t) # es) result =
           applyLoop m es (rec_set result af
             (case rec_get result af of None \<Rightarrow> t | Some acc \<Rightarrow> acc @ bsn @ t))"
proof -
  have a: "obj_get m l = Own af" using assms(1) by (simp add: obj_get_rec_get)
  have t: "t \<noteq> []" "trim t \<noteq> []" using assms(4) not_blank_iff [of t] by auto
  show ?thesis
  proof (cases "rec_get result af")
    case None
    then have c: "obj_get result af = Undefined" using assms(3) by (simp add: obj_get_rec_get)
    show ?thesis
      using assms(2) t by (simp add: Let_def a c None obj_set_plain [OF assms(3)])
  next
    case (Some acc)
    then have "acc \<in> snd ` set result" by (force dest: rec_get_SomeD)
    with assms(5) have acc: "acc \<noteq> []" by metis
    have c: "obj_get result af = Own acc" using Some by (simp add: obj_get_rec_get)
    show ?thesis
      using assms(2) t acc by (simp add: Let_def a c Some obj_set_plain [OF assms(3)])
  qed
qed

lemma applyLoop_step:
  "applyLoop m ((l, t) # es) result = applyLoop m es result
   \<or> (\<exists>k v. v \<noteq> [] \<and> applyLoop m ((l, t) # es) result = applyLoop m es (obj_set result k v))"
proof (cases "truthyGet (obj_get m l) \<and> t \<noteq> [] \<and> trim t \<noteq> []")
  case False
  then show ?thesis by (auto simp: Let_def)
next
  case True
  define key where "key = toStr (obj_get m l)"
  show ?thesis
  proof (cases "truthyGet (obj_get result key)")
    case yes: True
    have "toStr (obj_get result key) @ bsn @ t \<noteq> []" by (simp add: bsn_not_Nil)
    moreover have "applyLoop m ((l, t) # es) result =
                     applyLoop m es (obj_set result key (toStr (obj_get result key) @ bsn @ t))"
      using True yes by (simp add: Let_def key_def)
    ultimately show ?thesis by blast
  next
    case no: False
    have "applyLoop m ((l, t) # es) result = applyLoop m es (obj_set result key t)"
      using True no by (simp add: Let_def key_def)
    with True show ?thesis by blast
  qed
qed

lemma applyLoop_values_nonempty:
  "[] \<notin> snd ` set result \<Longrightarrow> [] \<notin> snd ` set (applyLoop m es result)"
proof (induction es arbitrary: result)
  case Nil
  then show ?case by simp
next
  case (Cons e es)
  obtain l t where e: "e = (l, t)" by (cases e)
  from applyLoop_step [of m l t es result]
  consider (same) "applyLoop m ((l, t) # es) result = applyLoop m es result"
    | (stored) k v where "v \<noteq> []"
        "applyLoop m ((l, t) # es) result = applyLoop m es (obj_set result k v)"
    by blast
  then show ?case
  proof cases
    case same
    show ?thesis unfolding e same by (rule Cons.IH [OF Cons.prems])
  next
    case stored
    have "[] \<notin> snd ` set (obj_set result k v)"
      using snd_set_obj_set [of result k v] Cons.prems stored(1) by auto
    then show ?thesis unfolding e stored(2) by (rule Cons.IH)
  qed
qed

lemma join_append_head: "join sep ((a @ sep @ b) # ys) = a @ sep @ join sep (b # ys)"
  by (cases ys) simp_all

lemma join_Cons_foldl: "join sep (t # ts) = foldl (\<lambda>a x. a @ sep @ x) t ts"
proof (induction ts arbitrary: t)
  case Nil
  show ?case by simp
next
  case (Cons y ys)
  have "foldl (\<lambda>a x. a @ sep @ x) t (y # ys) = join sep ((t @ sep @ y) # ys)"
    by (simp add: Cons.IH)
  then show ?case by (simp add: join_append_head)
qed

lemma plainNames_Cons:
  "plainNames m ((l, t) # es) \<longleftrightarrow>
     l \<notin> set protoMembers
     \<and> (case rec_get m l of None \<Rightarrow> True | Some f \<Rightarrow> f \<notin> set protoMembers)
     \<and> plainNames m es"
  by (simp add: plainNames_def)

lemma applyLoop_get:
  assumes "plainNames m es" "[] \<notin> snd ` set result"
  shows "rec_get (applyLoop m es result) f =
           (case rec_get result f of
              Some acc \<Rightarrow> Some (foldl (\<lambda>a x. a @ bsn @ x) acc (textsFor m es f))
            | None \<Rightarrow> (case textsFor m es f of
                          [] \<Rightarrow> None
                        | t # ts \<Rightarrow> Some (foldl (\<lambda>a x. a @ bsn @ x) t ts)))"
  using assms
proof (induction es arbitrary: result)
  case Nil
  show ?case by (simp add: textsFor_Nil split: option.splits)
next
  case (Cons e es)
  obtain l t where e: "e = (l, t)" by (cases e)
  have lp: "l \<notin> set protoMembers"
    and fp: "case rec_get m l of None \<Rightarrow> True | Some f \<Rightarrow> f \<notin> set protoMembers"
    and rest: "plainNames m es"
    using Cons.prems(1) by (simp_all add: e plainNames_Cons)
  show ?case
  proof (cases "truthy (rec_get m l) \<and> \<not> blank t")
    case False
    then have tf: "textsFor m ((l, t) # es) f = textsFor m es f"
      by (auto simp: textsFor_Cons)
    have sk: "applyLoop m ((l, t) # es) result = applyLoop m es result"
    proof (cases "blank t")
      case True
      then show ?thesis by (rule applyLoop_skip_blank)
    next
      case nb: False
      with False have "\<not> truthy (rec_get m l)" by simp
      with lp show ?thesis by (rule applyLoop_skip_unmapped)
    qed
    show ?thesis
      unfolding e sk tf by (rule Cons.IH [OF rest Cons.prems(2)])
  next
    case True
    then obtain af where af: "rec_get m l = Some af" "af \<noteq> []" and nb: "\<not> blank t"
      by (auto simp: truthy_iff)
    have afp: "af \<notin> set protoMembers" using fp af(1) by simp
    let ?v = "case rec_get result af of None \<Rightarrow> t | Some acc \<Rightarrow> acc @ bsn @ t"
    have "t \<noteq> []" using nb blank_Nil by auto
    then have v: "?v \<noteq> []" by (simp add: bsn_not_Nil split: option.splits)
    have ne: "[] \<notin> snd ` set (rec_set result af ?v)"
      using snd_set_rec_set [of result af ?v] Cons.prems(2) v by auto
    have tf: "textsFor m ((l, t) # es) f = (if af = f then t # textsFor m es f else textsFor m es f)"
      using af nb by (simp add: textsFor_Cons)
    show ?thesis
      unfolding e applyLoop_take [OF af afp nb Cons.prems(2)] Cons.IH [OF rest ne] tf
        rec_get_rec_set
      by (simp split: option.splits)
  qed
qed

text \<open>
  Claim C1, as the code has it. For every mapping and content map: no value of the map that
  \<open>applyMapping\<close> returns is the empty string; a pair whose text is blank, or whose label is
  a plain name with no mapping, leaves the accumulated result unchanged; and when the
  labels of the content map and their targets are plain names (none the name of a member
  of \<open>Object.prototype\<close>), the value of a target field is the texts contributing to it
  (label mapped to that field, field name not empty, text not blank), in the iteration
  order of the content map, joined by the two characters backslash and \<open>n\<close> that the
  source's template literal \<^verbatim>\<open>\\n\<close> denotes (not by a line feed); a field with no
  contributing text is absent.
\<close>

theorem applyMapping_joined:
  "(\<forall>e \<in> set (applyMapping mapping content). snd e \<noteq> [])
   \<and> (blank t \<or> (l \<notin> set protoMembers \<and> rec_get mapping l = None)
        \<longrightarrow> applyLoop mapping ((l, t) # es) result = applyLoop mapping es result)
   \<and> (plainNames mapping content
        \<longrightarrow> rec_get (applyMapping mapping content) f =
              (if textsFor mapping content f = [] then None
               else Some (join bsn (textsFor mapping content f))))"
proof -
  have "[] \<notin> snd ` set (applyMapping mapping content)"
    unfolding applyMapping_def by (rule applyLoop_values_nonempty) simp
  then have 1: "\<forall>e \<in> set (applyMapping mapping content). snd e \<noteq> []"
    by (metis imageI)
  have 2: "rec_get (applyMapping mapping content) f =
       (if textsFor mapping content f = [] then None
        else Some (join bsn (textsFor mapping content f)))" if "plainNames mapping content"
    unfolding applyMapping_def
    using applyLoop_get [OF that, of "[]" f]
    by (simp add: rec_get_Nil join_Cons_foldl split: list.splits)
  have 3: "blank t \<or> (l \<notin> set protoMembers \<and> rec_get mapping l = None)
        \<longrightarrow> applyLoop mapping ((l, t) # es) result = applyLoop mapping es result"
    using applyLoop_skip_blank [of t mapping l es result]
      applyLoop_skip_unmapped [of l mapping t es result] by auto
  show ?thesis using 1 2 3 by blast
qed

theorem applyMapping_joined_witness:
  "rec_get (applyMapping [(str ''primary'', str ''Front''), (str ''secondary'', str ''Front'')]
              [(str ''primary'', str ''P''), (str ''secondary'', str ''S'')]) (str ''Front'')
     = Some (str ''P'' @ bsn @ str ''S'')"
proof -
  let ?m = "[(str ''primary'', str ''Front''), (str ''secondary'', str ''Front'')]"
  let ?c = "[(str ''primary'', str ''P''), (str ''secondary'', str ''S'')]"
  have p: "plainNames ?m ?c"
    by (simp add: plainNames_def protoMembers_def rec_get_def str_def)
  have t: "textsFor ?m ?c (str ''Front'') = [str ''P'', str ''S'']"
    by (simp add: textsFor_def rec_get_def blank_def isWhiteSpace_def isLineTerminator_def str_def)
  show ?thesis
    using applyMapping_joined [of ?m ?c _ _ _ _ "str ''Front''"] p t by simp
qed

text \<open>The example of the specification: the two texts are not joined by a line feed.\<close>

theorem applyMapping_newline_counterexample:
  "rec_get (applyMapping [(str ''primary'', str ''Front''), (str ''secondary'', str ''Front'')]
              [(str ''primary'', str ''P''), (str ''secondary'', str ''S'')]) (str ''Front'')
     \<noteq> Some (join [0x0A] [str ''P'', str ''S''])"
  by (simp add: applyMapping_def obj_get_def obj_set_def protoMembers_def rec_get_def rec_set_def
        trim_def isWhiteSpace_def isLineTerminator_def bsn_def str_def)

section \<open>generateReport\<close>

lemma foldl_append_concat:
  "foldl (\<lambda>rep (a, b). rep @ h a b) acc xs = acc @ concat (map (\<lambda>(a, b). h a b) xs)"
  by (induction xs arbitrary: acc) (simp_all add: case_prod_beta)

text \<open>
  Claim C2, as the code has it. For every analysis result, \<open>generateReport\<close> returns the text
  made of, in this order: the header, the deck name, the sample size, the primary note
  type, the "Field Analysis" heading with one entry \<open>- field: label\<close> per field in the
  result's field order, and the "Suggested Semantic Mappings" heading followed by the
  sentence "No semantic mappings suggested" when the mapping is empty and otherwise by one
  entry per mapping entry, made of \<open>- \<close>, the label, the connective of the source between
  two spaces, and the field. Every entry ends with the two characters backslash and \<open>n\<close>
  of the source's template literal \<^verbatim>\<open>\\n\<close>; the text holds no line break of its own.
\<close>

theorem generateReport_layout:
  "generateReport r =
     str ''=== Deck Analysis Report ==='' @ bsn @ bsn
     @ str ''Deck: '' @ deckName r @ bsn
     @ str ''Sample size: '' @ numberToString (sampleSize r) @ bsn
     @ str ''Primary note type: '' @ primaryNoteType r @ bsn @ bsn
     @ str ''Field Analysis:'' @ bsn
     @ concat (map (\<lambda>(fld, label). str ''- '' @ fld @ str '': '' @ label @ bsn) (fieldAnalysis r))
     @ bsn @ str ''Suggested Semantic Mappings:'' @ bsn
     @ (if suggestedMappings r = [] then str ''No semantic mappings suggested'' @ bsn
        else concat (map (\<lambda>(label, fld).
                            str ''- '' @ label @ str '' '' @ arrowToken @ str '' '' @ fld @ bsn)
                         (suggestedMappings r)))"
  by (simp add: generateReport_def Let_def foldl_append_concat)

theorem generateReport_layout_witness:
  "generateReport \<lparr>deckName = str ''TestDeck'', sampleSize = 1,
       primaryNoteType = str ''Basic'',
       fieldAnalysis = [(str ''Field1'', str ''Unknown content'')],
       suggestedMappings = []\<rparr>
   = str ''=== Deck Analysis Report ==='' @ bsn @ bsn
     @ str ''Deck: TestDeck'' @ bsn
     @ str ''Sample size: 1'' @ bsn
     @ str ''Primary note type: Basic'' @ bsn @ bsn
     @ str ''Field Analysis:'' @ bsn
     @ str ''- Field1: Unknown content'' @ bsn
     @ bsn @ str ''Suggested Semantic Mappings:'' @ bsn
     @ str ''No semantic mappings suggested'' @ bsn"
  using generateReport_layout [of "\<lparr>deckName = str ''TestDeck'', sampleSize = 1,
       primaryNoteType = str ''Basic'',
       fieldAnalysis = [(str ''Field1'', str ''Unknown content'')],
       suggestedMappings = []\<rparr>"]
  by (simp add: numberToString_def str_def)

text \<open>On the result of the repository's own report test the text holds no line feed, so
  the header is not a line of its own.\<close>

theorem generateReport_no_line_break_counterexample:
  "0x0A \<notin> set (generateReport \<lparr>deckName = str ''TestDeck'', sampleSize = 3,
       primaryNoteType = str ''Basic'',
       fieldAnalysis = [(str ''Front'', str ''Short questions''), (str ''Back'', str ''Brief answers'')],
       suggestedMappings = [(str ''primary'', str ''Front''), (str ''secondary'', str ''Back'')]\<rparr>)
   \<and> \<not> prefix (str ''=== Deck Analysis Report ==='' @ [0x0A])
         (generateReport \<lparr>deckName = str ''TestDeck'', sampleSize = 3,
       primaryNoteType = str ''Basic'',
       fieldAnalysis = [(str ''Front'', str ''Short questions''), (str ''Back'', str ''Brief answers'')],
       suggestedMappings = [(str ''primary'', str ''Front''), (str ''secondary'', str ''Back'')]\<rparr>)"
  by (simp add: generateReport_def numberToString_def bsn_def arrowToken_def str_def)

text \<open>On the same input the text does not hold the entry with the arrow U+2192 that the
  repository's report test looks for.\<close>

lemma generateReport_connective_example:
  "\<not> str_includes
       (generateReport \<lparr>deckName = str ''TestDeck'', sampleSize = 3,
          primaryNoteType = str ''Basic'',
          fieldAnalysis = [(str ''Front'', str ''Short questions''), (str ''Back'', str ''Brief answers'')],
          suggestedMappings = [(str ''primary'', str ''Front''), (str ''secondary'', str ''Back'')]\<rparr>)
       (str ''primary '' @ [0x2192] @ str '' Front'')"
  by (simp add: generateReport_def numberToString_def bsn_def arrowToken_def str_def)

section \<open>findBestFieldMatch\<close>

lemma keywordScore_branches:
  "keywordScore lc f k =
     (if str_includes (lc f) (lc k) \<and> length (lc k) > 2 then 8 / 10
      else if str_includes (lc k) (lc f) \<and> length (lc f) \<ge> 4
              \<and> int (length (lc k)) - int (length (lc f)) \<le> 3 then 6 / 10
      else 0)"
  by (auto simp: keywordScore_def)

lemma keywordScore_nonneg: "0 \<le> keywordScore lc f k"
  by (simp add: keywordScore_branches)

lemma Max_insert_max:
  "finite S \<Longrightarrow> Max (insert (max a b) S) = Max (insert a (insert b S))"
  by (cases "S = {}") (simp_all add: max.assoc)

lemma scanKeywords_exact:
  "\<exists>k \<in> set ks. fl = lc k \<Longrightarrow> scanKeywords lc fl ks c = 1"
  by (induction ks arbitrary: c) (auto simp: Let_def)

lemma scanKeywords_step:
  assumes "lc f \<noteq> lc k" "0 \<le> c"
  shows "scanKeywords lc (lc f) (k # ks) c = scanKeywords lc (lc f) ks (max c (keywordScore lc f k))"
proof -
  let ?A = "str_includes (lc f) (lc k) \<and> length (lc k) > 2"
  let ?B = "str_includes (lc k) (lc f) \<and> length (lc f) \<ge> 4
              \<and> int (length (lc k)) - int (length (lc f)) \<le> 3"
  consider (a) ?A | (b) "\<not> ?A" ?B | (c) "\<not> ?A" "\<not> ?B" by blast
  then show ?thesis
  proof cases
    case a
    then have s: "keywordScore lc f k = 8 / 10" by (simp add: keywordScore_branches)
    have "scanKeywords lc (lc f) (k # ks) c = scanKeywords lc (lc f) ks (max c (8 / 10))"
      using a assms(1) by (simp add: Let_def)
    then show ?thesis unfolding s .
  next
    case b
    then have s: "keywordScore lc f k = 6 / 10" by (simp add: keywordScore_branches)
    have "scanKeywords lc (lc f) (k # ks) c = scanKeywords lc (lc f) ks (max c (6 / 10))"
      using b assms(1) by (auto simp: Let_def)
    then show ?thesis unfolding s .
  next
    case c
    then have s: "keywordScore lc f k = 0" by (simp add: keywordScore_branches)
    have m: "max c 0 = c" using assms(2) by simp
    have "scanKeywords lc (lc f) (k # ks) c = scanKeywords lc (lc f) ks c"
      using c assms(1) by (auto simp: Let_def)
    then show ?thesis unfolding s m .
  qed
qed

lemma scanKeywords_no_exact:
  "\<forall>k \<in> set ks. lc f \<noteq> lc k \<Longrightarrow> 0 \<le> c
     \<Longrightarrow> scanKeywords lc (lc f) ks c = Max (insert c (keywordScore lc f ` set ks))"
proof (induction ks arbitrary: c)
  case Nil
  show ?case by simp
next
  case (Cons k ks)
  have ne: "lc f \<noteq> lc k" and rest: "\<forall>k \<in> set ks. lc f \<noteq> lc k"
    using Cons.prems(1) by auto
  have c': "0 \<le> max c (keywordScore lc f k)"
    using Cons.prems(2) by (simp add: max.coboundedI1)
  have "scanKeywords lc (lc f) (k # ks) c
          = Max (insert (max c (keywordScore lc f k)) (keywordScore lc f ` set ks))"
    unfolding scanKeywords_step [of lc f k c ks, OF ne Cons.prems(2)] by (rule Cons.IH [OF rest c'])
  also have "\<dots> = Max (insert c (insert (keywordScore lc f k) (keywordScore lc f ` set ks)))"
    by (rule Max_insert_max) simp
  finally show ?case by simp
qed

lemma fieldConfidence_refines:
  "fieldConfidence lc f kws = fieldConfidence_spec lc f kws"
proof (cases "\<exists>k \<in> set kws. lc f = lc k")
  case True
  then show ?thesis
    by (simp add: fieldConfidence_def fieldConfidence_spec_def scanKeywords_exact)
next
  case False
  then have "\<forall>k \<in> set kws. lc f \<noteq> lc k" by blast
  from scanKeywords_no_exact [OF this, of 0] False show ?thesis
    by (simp add: fieldConfidence_def fieldConfidence_spec_def)
qed

lemma fieldConfidence_spec_nonneg: "0 \<le> fieldConfidence_spec lc f kws"
  by (simp add: fieldConfidence_spec_def)

lemma scanFields_result:
  "scanFields lc kws used fs bf bc =
     (let cands = filter (\<lambda>f. f \<notin> used) fs;
          M = Max (insert bc ((\<lambda>f. fieldConfidence lc f kws) ` set cands))
      in \<lparr>field = (if M = bc then bf else find (\<lambda>f. fieldConfidence lc f kws = M) cands),
          confidence = M\<rparr>)"
proof (induction fs arbitrary: bf bc)
  case Nil
  show ?case by simp
next
  case (Cons g fs)
  define cands where "cands = filter (\<lambda>f. f \<notin> used) fs"
  define C where "C = (\<lambda>f. fieldConfidence lc f kws) ` set cands"
  define cg where "cg = fieldConfidence lc g kws"
  have fin: "finite C" by (simp add: C_def)
  have IH: "scanFields lc kws used fs bf' bc' =
              \<lparr>field = (if Max (insert bc' C) = bc' then bf'
                         else find (\<lambda>f. fieldConfidence lc f kws = Max (insert bc' C)) cands),
               confidence = Max (insert bc' C)\<rparr>" for bf' bc'
    unfolding Cons.IH Let_def C_def cands_def ..
  show ?case
  proof (cases "g \<in> used")
    case True
    then have fl: "filter (\<lambda>f. f \<notin> used) (g # fs) = cands" by (simp add: cands_def)
    have st: "scanFields lc kws used (g # fs) bf bc = scanFields lc kws used fs bf bc"
      using True by simp
    show ?thesis
      unfolding st IH Let_def fl C_def ..
  next
    case unused: False
    then have fl: "filter (\<lambda>f. f \<notin> used) (g # fs) = g # cands" by (simp add: cands_def)
    have img: "(\<lambda>f. fieldConfidence lc f kws) ` set (g # cands) = insert cg C"
      by (simp add: C_def cg_def)
    show ?thesis
    proof (cases "cg > bc")
      case True
      have st: "scanFields lc kws used (g # fs) bf bc = scanFields lc kws used fs (Some g) cg"
        using unused True by (simp add: cg_def)
      have m: "Max (insert bc (insert cg C)) = Max (insert cg C)"
        using Max_insert_max [OF fin, of bc cg] True by (simp add: max_def)
      have "cg \<le> Max (insert cg C)"
        using fin by (intro Max_ge) auto
      with True have ne: "Max (insert cg C) \<noteq> bc" by auto
      have fd: "find (\<lambda>f. fieldConfidence lc f kws = Max (insert cg C)) (g # cands) =
                  (if Max (insert cg C) = cg then Some g
                   else find (\<lambda>f. fieldConfidence lc f kws = Max (insert cg C)) cands)"
        by (auto simp: cg_def)
      show ?thesis
        unfolding st IH Let_def fl img m fd using ne by simp
    next
      case False
      have st: "scanFields lc kws used (g # fs) bf bc = scanFields lc kws used fs bf bc"
        using unused False by (simp add: cg_def)
      have m: "Max (insert bc (insert cg C)) = Max (insert bc C)"
        using Max_insert_max [OF fin, of bc cg] False by (simp add: max_def)
      have "bc \<le> Max (insert bc C)"
        using fin by (intro Max_ge) auto
      with False have ne: "Max (insert bc C) \<noteq> bc \<Longrightarrow> cg \<noteq> Max (insert bc C)" by auto
      have fd: "Max (insert bc C) \<noteq> bc \<Longrightarrow>
                find (\<lambda>f. fieldConfidence lc f kws = Max (insert bc C)) (g # cands) =
                  find (\<lambda>f. fieldConfidence lc f kws = Max (insert bc C)) cands"
        using ne by (simp add: cg_def)
      show ?thesis
        unfolding st IH Let_def fl img m using fd by simp
    qed
  qed
qed

text \<open>
  Claim C5. For every field list, keyword list and set of used fields, \<open>findBestFieldMatch\<close>
  computes what the specification of the matcher says (\<open>bestMatch_spec\<close>). The confidence
  of a field is 1 when it equals some keyword up to case, and otherwise the maximum over
  the keywords of 0.8 (the lowercased field contains the lowercased keyword, which is longer
  than 2) and 0.6 (the lowercased keyword contains the lowercased field, which is at least 4
  long, and is at most 3 longer), 0 if there is none. Over the unused fields in declared
  order the result is the first field of highest confidence, and no field with confidence
  0 when every field is used or every confidence is 0. Lengths are those of the lowercased
  strings, as the code measures them.
\<close>

theorem findBestFieldMatch_refines_spec:
  "findBestFieldMatch lc flds kws used = bestMatch_spec lc flds kws used"
proof -
  define cands where "cands = filter (\<lambda>f. f \<notin> used) flds"
  define conf where "conf = (\<lambda>f. fieldConfidence_spec lc f kws)"
  have code: "findBestFieldMatch lc flds kws used =
     \<lparr>field = (if Max (insert 0 (conf ` set cands)) = 0 then None
                else find (\<lambda>f. conf f = Max (insert 0 (conf ` set cands))) cands),
      confidence = Max (insert 0 (conf ` set cands))\<rparr>"
    unfolding findBestFieldMatch_def scanFields_result fieldConfidence_refines Let_def
      cands_def conf_def ..
  have spec: "bestMatch_spec lc flds kws used =
     (if cands = [] \<or> (\<forall>f \<in> set cands. conf f = 0)
      then \<lparr>field = None, confidence = 0\<rparr>
      else \<lparr>field = find (\<lambda>f. conf f = Max (conf ` set cands)) cands,
            confidence = Max (conf ` set cands)\<rparr>)"
    unfolding bestMatch_spec_def Let_def cands_def conf_def ..
  show ?thesis
  proof (cases "cands = [] \<or> (\<forall>f \<in> set cands. conf f = 0)")
    case True
    then have "\<forall>f \<in> set cands. conf f = 0" by auto
    then have e: "insert 0 (conf ` set cands) = {0}" by auto
    have "Max (insert 0 (conf ` set cands)) = 0" unfolding e by simp
    with True show ?thesis
      unfolding code spec by simp
  next
    case False
    then obtain g where g: "g \<in> set cands" "conf g \<noteq> 0" by blast
    then have pos: "0 < conf g"
      using fieldConfidence_spec_nonneg [of lc g kws] by (simp add: conf_def)
    have ne: "conf ` set cands \<noteq> {}" using g by auto
    have "conf g \<le> Max (conf ` set cands)"
      using g by (intro Max_ge) auto
    with pos have mpos: "0 < Max (conf ` set cands)" by simp
    then have "Max (insert 0 (conf ` set cands)) = Max (conf ` set cands)"
      using ne by (simp add: max_def)
    with False mpos show ?thesis
      unfolding code spec by auto
  qed
qed

theorem findBestFieldMatch_refines_spec_witness:
  "bestMatch_spec toLowerCaseAscii [str ''Notes'', str ''Question'', str ''Answer'']
     [str ''front'', str ''question'', str ''word'', str ''term'', str ''kanji'', [0x8868], [0x554F, 0x984C]]
     {str ''Notes''}
   = \<lparr>field = Some (str ''Question''), confidence = 1\<rparr>"
proof -
  have "findBestFieldMatch toLowerCaseAscii [str ''Notes'', str ''Question'', str ''Answer'']
     [str ''front'', str ''question'', str ''word'', str ''term'', str ''kanji'', [0x8868], [0x554F, 0x984C]]
     {str ''Notes''}
   = \<lparr>field = Some (str ''Question''), confidence = 1\<rparr>"
    by (simp add: findBestFieldMatch_def fieldConfidence_def toLowerCaseAscii_def str_def)
  then show ?thesis
    using findBestFieldMatch_refines_spec [of toLowerCaseAscii
      "[str ''Notes'', str ''Question'', str ''Answer'']"
      "[str ''front'', str ''question'', str ''word'', str ''term'', str ''kanji'', [0x8868], [0x554F, 0x984C]]"
      "{str ''Notes''}"]
    by simp
qed

section \<open>suggestMappings\<close>

lemma scanFields_all_zero:
  "\<forall>f \<in> set fs. fieldConfidence lc f kws = 0
     \<Longrightarrow> scanFields lc kws used fs bf 0 = \<lparr>field = bf, confidence = 0\<rparr>"
  by (induction fs) simp_all

lemma findBestFieldMatch_no_match:
  "\<forall>f \<in> set flds. fieldConfidence lc f kws = 0
     \<Longrightarrow> findBestFieldMatch lc flds kws used = \<lparr>field = None, confidence = 0\<rparr>"
  by (simp add: findBestFieldMatch_def scanFields_all_zero)

lemma firstPass_no_match:
  "\<forall>p \<in> set ps. \<forall>f \<in> set flds. fieldConfidence lc f (keywords_p p) = 0
     \<Longrightarrow> firstPass lc flds ps st = st"
proof (induction ps)
  case Nil
  show ?case by simp
next
  case (Cons p ps)
  obtain m u where st: "st = (m, u)" by (cases st)
  have "findBestFieldMatch lc flds (keywords_p p) u = \<lparr>field = None, confidence = 0\<rparr>"
    using Cons.prems by (intro findBestFieldMatch_no_match) simp
  then show ?case using Cons by (simp add: st)
qed

lemma secondPass_no_match:
  "\<forall>p \<in> set ps. \<forall>f \<in> set flds. fieldConfidence lc f (keywords_p p) = 0
     \<Longrightarrow> secondPass lc flds ps st = st"
proof (induction ps)
  case Nil
  show ?case by simp
next
  case (Cons p ps)
  obtain m u where st: "st = (m, u)" by (cases st)
  have "findBestFieldMatch lc flds (keywords_p p) u = \<lparr>field = None, confidence = 0\<rparr>"
    using Cons.prems by (intro findBestFieldMatch_no_match) simp
  then show ?case using Cons by (simp add: st)
qed

lemma label_facts:
  "str ''secondary'' \<noteq> str ''primary''"
  "\<not> isArrayIndex (str ''primary'')"
  "\<not> isArrayIndex (str ''secondary'')"
  by (simp_all add: isArrayIndex_def isDigit_def str_def)

text \<open>
  Claim C4. For every schema (its field names pairwise distinct, as the data model has
  them) with at least 2 fields, for which every field has confidence 0 against the
  keywords of every pattern: \<open>suggestMappings\<close> returns exactly the mapping of "primary" to
  the field at index 0 and of "secondary" to the field at index 1.
\<close>

theorem suggestMappings_no_match_fallback:
  assumes "length (fields_nt noteType) \<ge> 2"
    and "distinct (fields_nt noteType)"
    and "\<forall>p \<in> set patterns. \<forall>f \<in> set (fields_nt noteType).
           fieldConfidence lc f (keywords_p p) = 0"
  shows "suggestMappings lc noteType =
           [(str ''primary'', fields_nt noteType ! 0), (str ''secondary'', fields_nt noteType ! 1)]"
proof -
  have ne0: "fields_nt noteType \<noteq> []" using assms(1) by auto
  have ln: "0 < length (fields_nt noteType)" "1 < length (fields_nt noteType)"
    using assms(1) by auto
  from ne0 have ne: "fields_nt noteType ! 1 \<noteq> fields_nt noteType ! 0"
    using assms(1,2) nth_eq_iff_index_eq [of "fields_nt noteType" 1 0] by simp
  have p1: "firstPass lc (fields_nt noteType) patterns ([], {}) = ([], {})"
    using assms(3) by (rule firstPass_no_match)
  have p2: "secondPass lc (fields_nt noteType) patterns ([], {}) = ([], {})"
    using assms(3) by (rule secondPass_no_match)
  show ?thesis
    using ln ne0 ne
    by (simp add: suggestMappings_def p1 p2 fallbackAt_def rec_get_def rec_set_def label_facts)
qed

theorem suggestMappings_no_match_fallback_witness:
  "suggestMappings toLowerCaseAscii
     \<lparr>name = str ''Custom'', fields_nt = [str ''Field1'', str ''Field2'', str ''Field3'']\<rparr>
   = [(str ''primary'', str ''Field1''), (str ''secondary'', str ''Field2'')]"
proof -
  let ?nt = "\<lparr>name = str ''Custom'', fields_nt = [str ''Field1'', str ''Field2'', str ''Field3'']\<rparr>"
  have 1: "length (fields_nt ?nt) \<ge> 2" by simp
  have 2: "distinct (fields_nt ?nt)" by (simp add: str_def)
  have 3: "\<forall>p \<in> set patterns. \<forall>f \<in> set (fields_nt ?nt).
             fieldConfidence toLowerCaseAscii f (keywords_p p) = 0"
    by (simp add: patterns_def fieldConfidence_def toLowerCaseAscii_def str_def)
  show ?thesis
    using suggestMappings_no_match_fallback [OF 1 2 3] by simp
qed

subsection \<open>The suggested mapping is valid\<close>

lemma scanFields_field_source:
  "field (scanFields lc kws used fs bf bc) = Some f \<Longrightarrow> bf = Some f \<or> (f \<in> set fs \<and> f \<notin> used)"
  by (induction fs arbitrary: bf bc) (auto split: if_splits)

lemma findBestFieldMatch_field:
  "field (findBestFieldMatch lc flds kws used) = Some f \<Longrightarrow> f \<in> set flds \<and> f \<notin> used"
  using scanFields_field_source [of lc kws used flds None 0 f]
  by (simp add: findBestFieldMatch_def)

lemma update_entry_conv:
  "(\<lambda>(k', v'). if k' = k then (k', v) else (k', v'))
     = (\<lambda>e. (fst e, if fst e = k then v else snd e))"
  by (auto simp: fun_eq_iff)

lemma rec_set_present:
  "k \<in> fst ` set r \<Longrightarrow> rec_set r k v = map (\<lambda>e. (fst e, if fst e = k then v else snd e)) r"
  by (simp add: rec_set_def update_entry_conv)

lemma rec_set_absent: "k \<notin> fst ` set r \<Longrightarrow> rec_set r k v = insertKey k v r"
  by (simp add: rec_set_def)

lemma distinct_snd_update:
  "distinct (map fst r) \<Longrightarrow> distinct (map snd r) \<Longrightarrow> v \<notin> snd ` set r
     \<Longrightarrow> distinct (map (\<lambda>e. if fst e = k then v else snd e) r)"
proof (induction r)
  case Nil
  show ?case by simp
next
  case (Cons e r)
  have IH: "distinct (map (\<lambda>e. if fst e = k then v else snd e) r)"
    using Cons by auto
  show ?case
  proof (cases "fst e = k")
    case True
    then have "\<forall>e' \<in> set r. fst e' \<noteq> k" using Cons.prems(1) by (auto simp: image_iff)
    then have eq: "map (\<lambda>e. if fst e = k then v else snd e) r = map snd r"
      by (intro map_cong) auto
    show ?thesis unfolding list.map eq using True Cons.prems by auto
  next
    case False
    have "set (map (\<lambda>e. if fst e = k then v else snd e) r) \<subseteq> insert v (snd ` set r)"
      by auto
    moreover have "snd e \<noteq> v" "snd e \<notin> snd ` set r" using Cons.prems by auto
    ultimately have "snd e \<notin> set (map (\<lambda>e. if fst e = k then v else snd e) r)" by blast
    then show ?thesis using False IH by simp
  qed
qed

lemma distinct_fst_insertKey:
  "k \<notin> fst ` set r \<Longrightarrow> distinct (map fst r) \<Longrightarrow> distinct (map fst (insertKey k v r))"
  by (induction r) (auto simp: set_insertKey)

lemma distinct_snd_insertKey:
  "v \<notin> snd ` set r \<Longrightarrow> distinct (map snd r) \<Longrightarrow> distinct (map snd (insertKey k v r))"
  by (induction r) (auto simp: set_insertKey)

lemma distinct_fst_rec_set:
  "distinct (map fst r) \<Longrightarrow> distinct (map fst (rec_set r k v))"
proof (cases "k \<in> fst ` set r")
  case True
  assume "distinct (map fst r)"
  then show ?thesis unfolding rec_set_present [OF True] by (simp add: comp_def)
next
  case False
  assume "distinct (map fst r)"
  with False show ?thesis unfolding rec_set_absent [OF False] by (rule distinct_fst_insertKey)
qed

lemma distinct_snd_rec_set:
  assumes "distinct (map fst r)" "distinct (map snd r)" "v \<notin> snd ` set r"
  shows "distinct (map snd (rec_set r k v))"
proof (cases "k \<in> fst ` set r")
  case True
  show ?thesis
    unfolding rec_set_present [OF True]
    using distinct_snd_update [OF assms, of k] by (simp add: comp_def)
next
  case False
  show ?thesis
    unfolding rec_set_absent [OF False] using assms(3,2) by (rule distinct_snd_insertKey)
qed

lemma wellAssigned_assign:
  assumes "wellAssigned flds (m, u)" "f \<in> set flds" "f \<notin> u"
  shows "wellAssigned flds (rec_set m k f, insert f u)"
proof -
  have nv: "f \<notin> snd ` set m" using assms(1,3) by (auto simp: wellAssigned_def)
  have d1: "distinct (map fst (rec_set m k f))"
    using assms(1) by (intro distinct_fst_rec_set) (simp add: wellAssigned_def)
  have d2: "distinct (map snd (rec_set m k f))"
    using assms(1) nv by (intro distinct_snd_rec_set) (simp_all add: wellAssigned_def)
  have s: "snd ` set (rec_set m k f) \<subseteq> insert f (snd ` set m)"
    by (rule snd_set_rec_set)
  have "snd ` set m \<subseteq> u" "snd ` set m \<subseteq> set flds"
    using assms(1) by (simp_all add: wellAssigned_def)
  with s assms(2) have "snd ` set (rec_set m k f) \<subseteq> insert f u"
    "snd ` set (rec_set m k f) \<subseteq> set flds" by blast+
  with d1 d2 show ?thesis by (simp add: wellAssigned_def)
qed

lemma truthy_the: "truthy x \<Longrightarrow> x = Some (the x)"
  by (cases x) auto

lemma firstPass_wellAssigned:
  "wellAssigned flds st \<Longrightarrow> wellAssigned flds (firstPass lc flds ps st)"
proof (induction ps arbitrary: st)
  case Nil
  then show ?case by simp
next
  case (Cons p ps)
  obtain m u where st: "st = (m, u)" by (cases st)
  let ?bm = "findBestFieldMatch lc flds (keywords_p p) u"
  show ?case
  proof (cases "truthy (field ?bm) \<and> confidence ?bm > 8 / 10")
    case True
    then have "field ?bm = Some (the (field ?bm))" by (simp add: truthy_the)
    then have "the (field ?bm) \<in> set flds \<and> the (field ?bm) \<notin> u"
      by (rule findBestFieldMatch_field)
    then have "wellAssigned flds (rec_set m (semantic p) (the (field ?bm)), insert (the (field ?bm)) u)"
      using Cons.prems by (intro wellAssigned_assign) (simp_all add: st)
    then show ?thesis using True Cons.IH by (simp add: st Let_def)
  next
    case False
    then show ?thesis using Cons by (auto simp: st Let_def)
  qed
qed

lemma secondPass_wellAssigned:
  "wellAssigned flds st \<Longrightarrow> wellAssigned flds (secondPass lc flds ps st)"
proof (induction ps arbitrary: st)
  case Nil
  then show ?case by simp
next
  case (Cons p ps)
  obtain m u where st: "st = (m, u)" by (cases st)
  let ?bm = "findBestFieldMatch lc flds (keywords_p p) u"
  show ?case
  proof (cases "\<not> truthy (rec_get m (semantic p)) \<and> truthy (field ?bm) \<and> confidence ?bm > 5 / 10")
    case True
    then have "field ?bm = Some (the (field ?bm))" by (simp add: truthy_the)
    then have "the (field ?bm) \<in> set flds \<and> the (field ?bm) \<notin> u"
      by (rule findBestFieldMatch_field)
    then have "wellAssigned flds (rec_set m (semantic p) (the (field ?bm)), insert (the (field ?bm)) u)"
      using Cons.prems by (intro wellAssigned_assign) (simp_all add: st)
    then show ?thesis using True Cons.IH by (simp add: st Let_def)
  next
    case False
    then show ?thesis using Cons by (auto simp: st Let_def)
  qed
qed

lemma fallbackAt_wellAssigned:
  "wellAssigned flds st \<Longrightarrow> wellAssigned flds (fallbackAt label i flds st)"
proof -
  assume w: "wellAssigned flds st"
  obtain m u where st: "st = (m, u)" by (cases st)
  show ?thesis
    using w wellAssigned_assign [of flds m u "flds ! i" label]
    by (auto simp: fallbackAt_def st)
qed

lemma suggestMappings_wellAssigned:
  "\<exists>u. wellAssigned (fields_nt noteType) (suggestMappings lc noteType, u)"
proof -
  let ?f = "fields_nt noteType"
  let ?st = "fallbackAt (str ''secondary'') 1 ?f
               (fallbackAt (str ''primary'') 0 ?f
                  (secondPass lc ?f patterns (firstPass lc ?f patterns ([], {}))))"
  have "wellAssigned ?f ([], {})" by (simp add: wellAssigned_def)
  then have "wellAssigned ?f ?st"
    by (intro fallbackAt_wellAssigned secondPass_wellAssigned firstPass_wellAssigned)
  moreover have "suggestMappings lc noteType = fst ?st"
    by (simp add: suggestMappings_def Let_def)
  ultimately have "wellAssigned ?f (suggestMappings lc noteType, snd ?st)" by simp
  then show ?thesis ..
qed

text \<open>The mapping is valid whether or not the schema's field names are distinct.\<close>

lemma suggestMappings_valid_any_schema:
  "validateMapping noteType (suggestMappings lc noteType)
   \<and> snd ` set (suggestMappings lc noteType) \<subseteq> set (fields_nt noteType)
   \<and> distinct (map snd (suggestMappings lc noteType))"
  using suggestMappings_wellAssigned [of noteType lc]
  by (auto simp: wellAssigned_def validateMapping_iff)

text \<open>
  Claim C10. For every schema whose field names are pairwise distinct, the mapping that
  \<open>suggestMappings\<close> returns passes \<open>validateMapping\<close> on that schema: every assigned field
  is one of the schema's fields and no two labels are assigned the same field.
\<close>

theorem suggestMappings_passes_validateMapping:
  assumes "distinct (fields_nt noteType)"
  shows "validateMapping noteType (suggestMappings lc noteType)
         \<and> (\<forall>e \<in> set (suggestMappings lc noteType). snd e \<in> set (fields_nt noteType))
         \<and> (\<forall>i j. i < j \<and> j < length (suggestMappings lc noteType)
               \<longrightarrow> snd (suggestMappings lc noteType ! i) \<noteq> snd (suggestMappings lc noteType ! j))"
proof -
  have d: "distinct (map snd (suggestMappings lc noteType))"
    using suggestMappings_valid_any_schema [of noteType lc] by blast
  have "\<forall>i j. i < j \<and> j < length (suggestMappings lc noteType)
               \<longrightarrow> snd (suggestMappings lc noteType ! i) \<noteq> snd (suggestMappings lc noteType ! j)"
    using d unfolding distinct_iff_no_pair [of "map snd (suggestMappings lc noteType)"] by auto
  then show ?thesis
    using suggestMappings_valid_any_schema [of noteType lc] by auto
qed

theorem suggestMappings_passes_validateMapping_witness:
  "validateMapping \<lparr>name = str ''Cloze'', fields_nt = [str ''Text'', str ''Extra'']\<rparr>
     (suggestMappings toLowerCaseAscii \<lparr>name = str ''Cloze'', fields_nt = [str ''Text'', str ''Extra'']\<rparr>)"
proof -
  have "distinct (fields_nt \<lparr>name = str ''Cloze'', fields_nt = [str ''Text'', str ''Extra'']\<rparr>)"
    by (simp add: str_def)
  from suggestMappings_passes_validateMapping [OF this, of toLowerCaseAscii]
  show ?thesis by blast
qed

section \<open>getSuggestionDetails\<close>







section \<open>The model on the examples of the repository\<close>

text \<open>\<open>str_includes\<close> is the contiguous-sublist relation of the library.\<close>

lemma str_includes_iff_sublist: "str_includes s sub \<longleftrightarrow> sublist sub s"
  by (induction s) (auto simp: sublist_Cons_right)

text \<open>The expectations of the repository's tests of \<open>suggestMappings\<close> (a Jest \<open>toEqual\<close>
  on objects ignores the order of the keys; the model also gives the order), of the sample
  taken by \<open>analyzeDeck\<close>, and the order in which an object lists keys that are array
  indices.\<close>

lemma suggestMappings_basic_example:
  "suggestMappings toLowerCaseAscii \<lparr>name = str ''Basic'', fields_nt = [str ''Front'', str ''Back'']\<rparr>
     = [(str ''primary'', str ''Front''), (str ''secondary'', str ''Back'')]"
  by (simp add: suggestMappings_def patterns_def findBestFieldMatch_def fieldConfidence_def
        fallbackAt_def rec_get_def rec_set_def isArrayIndex_def isDigit_def
        toLowerCaseAscii_def str_def)

lemma suggestMappings_japanese_example:
  "suggestMappings toLowerCaseAscii
     \<lparr>name = str ''Japanese (recognition)'',
      fields_nt = [str ''Expression'', str ''Reading'', str ''Meaning'', str ''Sentence'']\<rparr>
     = [(str ''secondary'', str ''Meaning''), (str ''reading'', str ''Reading''),
        (str ''example'', str ''Sentence''), (str ''primary'', str ''Expression'')]"
  by (simp add: suggestMappings_def patterns_def findBestFieldMatch_def fieldConfidence_def
        fallbackAt_def rec_get_def rec_set_def isArrayIndex_def isDigit_def
        toLowerCaseAscii_def str_def)

lemma suggestMappings_cloze_example:
  "suggestMappings toLowerCaseAscii \<lparr>name = str ''Cloze'', fields_nt = [str ''Text'', str ''Extra'']\<rparr>
     = [(str ''notes'', str ''Extra''), (str ''example'', str ''Text'')]"
  by (simp add: suggestMappings_def patterns_def findBestFieldMatch_def fieldConfidence_def
        fallbackAt_def rec_get_def rec_set_def isArrayIndex_def isDigit_def
        toLowerCaseAscii_def str_def)

lemma analyzeDeck_sample_example:
  "fst (analyzeDeck toLowerCaseAscii
     \<lparr>findCards = (\<lambda>q. Inr [1, 2]),
      getCardsInfo = (\<lambda>ids. Inr (map (\<lambda>i. \<lparr>cardId = i,
         fields_card = [(str ''Front'', \<lparr>fieldValue = str ''Test'', fieldOrder = 0\<rparr>)],
         modelName = str ''Basic''\<rparr>) ids))\<rparr>
     (str ''SmallDeck'') 10)
   = [FindCards (deckQuery (str ''SmallDeck'')), GetCardsInfo [1, 2]]"
  by (simp add: analyzeDeck_def slice0_def Let_def split: sum.splits)

lemma getFieldSamples_key_order_example:
  "getFieldSamples
     [\<lparr>cardId = 1,
       fields_card = [(str ''7'', \<lparr>fieldValue = str ''x'', fieldOrder = 1\<rparr>),
                      (str ''Front'', \<lparr>fieldValue = str ''Q'', fieldOrder = 0\<rparr>)],
       modelName = str ''Basic''\<rparr>,
      \<lparr>cardId = 2,
       fields_card = [(str ''3'', \<lparr>fieldValue = str ''y'', fieldOrder = 0\<rparr>)],
       modelName = str ''Basic''\<rparr>]
   = Inr [(str ''3'', [str ''y'']), (str ''7'', [str ''x'']), (str ''Front'', [str ''Q''])]"
  by (simp add: getFieldSamples_def obj_get_def protoMembers_def rec_set_def isArrayIndex_def
        isDigit_def indexValue_def trim_def isWhiteSpace_def isLineTerminator_def
        truncateValue_def str_def)

text \<open>Names that \<open>Object.prototype\<close> has. A label with no mapping still finds the inherited
  member and stores its text under the string of that member; a target named
  \<open>constructor\<close> starts from the string of the inherited member, and one named \<open>__proto__\<close>
  receives nothing; a note type named \<open>constructor\<close> is counted as a string and never
  becomes the primary one.\<close>

lemma applyMapping_inherited_label_example:
  "applyMapping [] [(str ''constructor'', str ''x'')]
     = [(str ''function Object() { [native code] }'', str ''x'')]"
  by (simp add: applyMapping_def obj_get_def obj_set_def protoMembers_def memberToString_def
        rec_set_def trim_def isWhiteSpace_def isLineTerminator_def str_def)

lemma applyMapping_inherited_target_example:
  "applyMapping [(str ''primary'', str ''constructor'')] [(str ''primary'', str ''x'')]
     = [(str ''constructor'', str ''function Object() { [native code] }'' @ bsn @ str ''x'')]
   \<and> applyMapping [(str ''primary'', str ''__proto__'')] [(str ''primary'', str ''x'')] = []"
  by (simp add: applyMapping_def obj_get_def obj_set_def protoMembers_def memberToString_def
        rec_set_def trim_def isWhiteSpace_def isLineTerminator_def str_def)

lemma getPrimaryNoteType_inherited_name_example:
  "getPrimaryNoteType
     [\<lparr>cardId = 1, fields_card = [], modelName = str ''constructor''\<rparr>,
      \<lparr>cardId = 2, fields_card = [], modelName = str ''constructor''\<rparr>,
      \<lparr>cardId = 3, fields_card = [], modelName = str ''Basic''\<rparr>] = str ''Basic''"
  by (simp add: getPrimaryNoteType_def obj_get_def obj_set_def protoMembers_def
        memberToString_def rec_set_def isArrayIndex_def isDigit_def str_def)

end
